theory Spec2Isabelle
  imports Main "HOL-Library.AList"
begin

section \<open>JavaScript values\<close>

text \<open>
  The values the document store handles: items, keys, index values and projections.
  Numbers are modelled as integers; a record is an association list in insertion
  order, with at most one entry per property name.
\<close>

datatype jsval =
    Undefined
  | Null
  | JBool bool
  | JNum int
  | JStr string
  | JArr "jsval list"
  | JObj "(string \<times> jsval) list"

datatype error =
    Error string
  | TypeError
  | AssertionError
  | KVMissing "jsval list"
  | KVExists "jsval list"

fun truthy :: "jsval \<Rightarrow> bool" where
  "truthy Undefined = False"
| "truthy Null = False"
| "truthy (JBool b) = b"
| "truthy (JNum n) = (n \<noteq> 0)"
| "truthy (JStr s) = (s \<noteq> [])"
| "truthy (JArr xs) = True"
| "truthy (JObj ps) = True"

fun typeof :: "jsval \<Rightarrow> string" where
  "typeof Undefined = ''undefined''"
| "typeof Null = ''object''"
| "typeof (JBool b) = ''boolean''"
| "typeof (JNum n) = ''number''"
| "typeof (JStr s) = ''string''"
| "typeof (JArr xs) = ''object''"
| "typeof (JObj ps) = ''object''"

text \<open>\<open>a && b\<close>: the left operand when it is falsy, the right one otherwise.\<close>

definition js_and :: "jsval \<Rightarrow> jsval \<Rightarrow> jsval" where
  "js_and a b = (if truthy a then b else a)"

text \<open>\<open>obj[k]\<close> on a record: \<open>undefined\<close> when the property is missing.\<close>

definition obj_get :: "(string \<times> jsval) list \<Rightarrow> string \<Rightarrow> jsval" where
  "obj_get ps k = (case map_of ps k of None \<Rightarrow> Undefined | Some v \<Rightarrow> v)"

text \<open>\<open>last(xs)\<close> of lodash: \<open>undefined\<close> on the empty array.\<close>

definition last_js :: "jsval list \<Rightarrow> jsval" where
  "last_js xs = (if xs = [] then Undefined else last xs)"

text \<open>
  \<open>isEqual\<close> of lodash: deep comparison; arrays are compared element by element,
  records property by property whatever the order of their properties.
\<close>

fun isEqual :: "jsval \<Rightarrow> jsval \<Rightarrow> bool" where
  "isEqual (JArr xs) (JArr ys) = (length xs = length ys \<and> list_all2 isEqual xs ys)"
| "isEqual (JObj ps) (JObj qs) =
     (length ps = length qs \<and>
      list_all (\<lambda>kv. case map_of qs (fst kv) of
                         None \<Rightarrow> False
                       | Some w \<Rightarrow> isEqual (snd kv) w) ps)"
| "isEqual a b = (a = b)"


text \<open>
  Modelled from the spec: \<open>flatten\<close> of the external package expand-flatten, which is
  not part of the repository. "The engine flattens items (dot-joined paths)": a nested
  record contributes its leaves under dot-joined property paths, any other value is a
  leaf, and an absent item flattens to the empty record.
\<close>

fun flatten_into :: "string \<Rightarrow> jsval \<Rightarrow> (string \<times> jsval) list \<Rightarrow> (string \<times> jsval) list" where
  "flatten_into prefix (JObj ps) acc =
     fold (\<lambda>kv a. case snd kv of
                     JObj qs \<Rightarrow> flatten_into (prefix @ fst kv @ ''.'') (JObj qs) a
                   | v \<Rightarrow> AList.update (prefix @ fst kv) v a) ps acc"
| "flatten_into prefix v acc = acc"

definition flatten :: "jsval \<Rightarrow> (string \<times> jsval) list" where
  "flatten item = flatten_into [] item []"

section \<open>Declarations and the persisted descriptor\<close>

text \<open>
  A declared index property is simple (\<open>value === true\<close>: read from the flattened
  item) or computed (a function of the item, taken as a total function of the model).
\<close>

datatype pvalue = PTrue | PFun "jsval \<Rightarrow> jsval"

record property =
  pkey :: string
  pvalue :: pvalue

record index =
  ikeys :: "string list"
  iproperties :: "property list"
  iprojection :: "string list option"

record collection =
  cname :: string
  cindexes :: "index list"

text \<open>The persisted descriptor stored at key \<open>[name]\<close>.\<close>

record pindex =
  pikeys :: "string list"
  piprojection :: "string list option"

record pcollection =
  pcname :: string
  hasBeenRemoved :: bool
  pcindexes :: "pindex list"

text \<open>
  A table of a version 1 descriptor: only its \<open>indexes\<close> are read by the upgrade.
\<close>

record legacy_table =
  tindexes :: "jsval list"

record store_record =
  rname :: string
  version :: int
  isLocked :: bool
  rcollections :: "pcollection list"
  lastMigrationNumber :: "jsval option"
  tables :: "legacy_table list option"

text \<open>
  Modelled from the spec: \<open>toJSON\<close> of the classes Index and Collection (file
  collection.js is not in the sources): "the persisted descriptor carries only keys
  and projection"; a collection descriptor has its name and its indexes.
\<close>

definition index_toJSON :: "index \<Rightarrow> pindex" where
  "index_toJSON idx = \<lparr>pikeys = ikeys idx, piprojection = iprojection idx\<rparr>"

definition collection_toJSON :: "collection \<Rightarrow> pcollection" where
  "collection_toJSON c =
     \<lparr>pcname = cname c, hasBeenRemoved = False, pcindexes = map index_toJSON (cindexes c)\<rparr>"

text \<open>
  Modelled from the spec: \<open>findIndexForQueryAndOrder\<close> of class Collection (not in
  the sources): "returns the first declared index whose keys prefix equals
  queryKeys ++ orderKeys (set-equal for the query portion, order-preserving for the
  order portion). Error if none."
\<close>

definition index_covers :: "string list \<Rightarrow> string list \<Rightarrow> index \<Rightarrow> bool" where
  "index_covers queryKeys orderKeys idx =
     (let ks = ikeys idx; n = length queryKeys in
      n + length orderKeys \<le> length ks \<and>
      set (take n ks) = set queryKeys \<and>
      take (length orderKeys) (drop n ks) = orderKeys)"

definition findIndexForQueryAndOrder ::
  "collection \<Rightarrow> (string \<times> jsval) list option \<Rightarrow> string list option \<Rightarrow> error + index" where
  "findIndexForQueryAndOrder c query order =
     (let queryKeys = (case query of None \<Rightarrow> [] | Some q \<Rightarrow> map fst q);
          orderKeys = (case order of None \<Rightarrow> [] | Some ks \<Rightarrow> ks) in
      case filter (index_covers queryKeys orderKeys) (cindexes c) of
        [] \<Rightarrow> Inl (Error ''Cannot find an index matching the query and order'')
      | idx # _ \<Rightarrow> Inr idx)"

section \<open>Options\<close>

text \<open>
  The options bag of the public operations, one field per option the source reads or
  forwards; \<open>None\<close> is an option the caller left out.
\<close>

record options =
  o_query :: "(string \<times> jsval) list option"
  o_order :: "string list option"
  o_start :: "jsval list option"
  o_startAfter :: "jsval list option"
  o_end :: "jsval list option"
  o_endBefore :: "jsval list option"
  o_reverse :: bool
  o_limit :: "nat option"
  o_properties :: "jsval option"
  o_batchSize :: "nat option"
  o_errorIfMissing :: "bool option"
  o_createIfMissing :: "bool option"
  o_errorIfExists :: "bool option"
  o_prefix :: "jsval list"
  o_returnValues :: bool

definition no_options :: options where
  "no_options =
     \<lparr>o_query = None, o_order = None, o_start = None, o_startAfter = None, o_end = None,
      o_endBefore = None, o_reverse = False, o_limit = None, o_properties = None,
      o_batchSize = None, o_errorIfMissing = None, o_createIfMissing = None,
      o_errorIfExists = None, o_prefix = [], o_returnValues = False\<rparr>"


section \<open>State, outcomes and sequencing\<close>

text \<open>
  What a call to the key-value engine was: the trace of these calls is part of the
  state, so that "no write" and "no item fetch" can be stated.
\<close>

datatype kvop =
    KGet "jsval list"
  | KPut "jsval list" jsval
  | KPutRecord "jsval list" store_record
  | KDelete "jsval list"
  | KGetMany "jsval list list"
  | KFind options
  | KCount options
  | KFindAndDelete "jsval list"

fun is_write :: "kvop \<Rightarrow> bool" where
  "is_write (KPut k v) = True"
| "is_write (KPutRecord k r) = True"
| "is_write (KDelete k) = True"
| "is_write (KFindAndDelete p) = True"
| "is_write (KGet k) = False"
| "is_write (KGetMany ks) = False"
| "is_write (KFind opts) = False"
| "is_write (KCount opts) = False"

datatype event =
    DidCreate
  | DidInitialize
  | UpgradeDidStart
  | UpgradeDidStop
  | MigrationDidStart
  | MigrationDidStop
  | DidPutItem string jsval jsval
  | DidDeleteItem string jsval jsval

text \<open>
  The state a call runs in: the content of the key-value engine (the descriptor at key
  \<open>[name]\<close> in \<open>meta\<close>, every other pair in \<open>kv\<close>), the trace of the calls made to it,
  the events emitted, and the three flags the root store object carries.
\<close>

record dstate =
  meta :: "store_record option"
  kv :: "(jsval list \<times> jsval) list"
  kvlog :: "kvop list"
  events :: "event list"
  hasBeenInitialized :: bool
  isInitializing :: bool
  migrationDidStartEventHasBeenEmitted :: bool

text \<open>
  The store object \<open>this\<close>: its name, its declared collections, its own identity and
  the identity of the object its \<open>root\<close> property refers to.
\<close>

record ctx =
  ds_name :: string
  ds_collections :: "collection list"
  ds_self :: nat
  ds_root :: nat

text \<open>
  A call returns a result, throws (the state reached is kept: mutations made before the
  throw stay), or does not come back within the fuel given to its loops.
\<close>

datatype 'a outcome = Return 'a dstate | Throw error dstate | OutOfFuel

type_synonym 'a m = "dstate \<Rightarrow> 'a outcome"

definition ret :: "'a \<Rightarrow> 'a m" where
  "ret x s = Return x s"

definition throw :: "error \<Rightarrow> 'a m" where
  "throw e s = Throw e s"

definition bind :: "'a m \<Rightarrow> ('a \<Rightarrow> 'b m) \<Rightarrow> 'b m" where
  "bind act f s =
     (case act s of
        Return x s' \<Rightarrow> f x s'
      | Throw e s' \<Rightarrow> Throw e s'
      | OutOfFuel \<Rightarrow> OutOfFuel)"

text \<open>
  \<open>try { body } finally { fin }\<close>: the finalizer runs after the body however the body
  ends; when the finalizer throws, its error replaces the outcome of the body.
\<close>

definition try_finally :: "'a m \<Rightarrow> unit m \<Rightarrow> 'a m" where
  "try_finally body fin s =
     (case body s of
        Return x s1 \<Rightarrow>
          (case fin s1 of
             Return u s2 \<Rightarrow> Return x s2
           | Throw e s2 \<Rightarrow> Throw e s2
           | OutOfFuel \<Rightarrow> OutOfFuel)
      | Throw e s1 \<Rightarrow>
          (case fin s1 of
             Return u s2 \<Rightarrow> Throw e s2
           | Throw e' s2 \<Rightarrow> Throw e' s2
           | OutOfFuel \<Rightarrow> OutOfFuel)
      | OutOfFuel \<Rightarrow> OutOfFuel)"

text \<open>A \<open>for\<close> loop over a list, threading the local variables the loop updates.\<close>

fun foldM :: "('a \<Rightarrow> 'b \<Rightarrow> 'b m) \<Rightarrow> 'a list \<Rightarrow> 'b \<Rightarrow> 'b m" where
  "foldM f [] acc = ret acc"
| "foldM f (x # xs) acc = bind (f x acc) (foldM f xs)"

text \<open>\<open>xs.map(f)\<close> where \<open>f\<close> may throw: the first error wins.\<close>

fun mapE :: "('a \<Rightarrow> error + 'b) \<Rightarrow> 'a list \<Rightarrow> error + 'b list" where
  "mapE f [] = Inr []"
| "mapE f (x # xs) =
     (case f x of
        Inl e \<Rightarrow> Inl e
      | Inr y \<Rightarrow> (case mapE f xs of Inl e \<Rightarrow> Inl e | Inr ys \<Rightarrow> Inr (y # ys)))"

definition emit :: "event \<Rightarrow> unit m" where
  "emit ev s = Return () (s\<lparr>events := events s @ [ev]\<rparr>)"

text \<open>\<open>xs.findIndex(P)\<close>: the first position whose element satisfies \<open>P\<close>.\<close>

fun findIndex :: "('a \<Rightarrow> bool) \<Rightarrow> 'a list \<Rightarrow> nat option" where
  "findIndex P [] = None"
| "findIndex P (x # xs) =
     (if P x then Some 0 else (case findIndex P xs of None \<Rightarrow> None | Some i \<Rightarrow> Some (Suc i)))"


section \<open>The key-value engine\<close>

text \<open>
  Modelled from the spec: the contract of the external package key-value-store
  (section 6, "KV backend contract"), as an in-memory engine. Absence is governed by
  \<open>errorIfMissing\<close> (on by default, as the comments of \<open>get\<close> and \<open>delete\<close> in the source
  say) and by \<open>errorIfExists\<close> and \<open>createIfMissing\<close>; a scan returns the pairs under a
  prefix in key order, within the range options, up to the limit.
\<close>

record kvitem =
  it_key :: "jsval list"
  it_value :: jsval

fun str_less :: "string \<Rightarrow> string \<Rightarrow> bool" where
  "str_less [] [] = False"
| "str_less [] (y # ys) = True"
| "str_less (x # xs) [] = False"
| "str_less (x # xs) (y # ys) =
     ((of_char x :: nat) < of_char y \<or> (x = y \<and> str_less xs ys))"

fun elem_rank :: "jsval \<Rightarrow> nat" where
  "elem_rank Undefined = 0"
| "elem_rank Null = 1"
| "elem_rank (JBool b) = 2"
| "elem_rank (JNum n) = 3"
| "elem_rank (JStr s) = 4"
| "elem_rank (JArr xs) = 5"
| "elem_rank (JObj ps) = 6"

fun elem_less :: "jsval \<Rightarrow> jsval \<Rightarrow> bool" where
  "elem_less (JNum a) (JNum b) = (a < b)"
| "elem_less (JStr a) (JStr b) = str_less a b"
| "elem_less (JBool a) (JBool b) = (\<not> a \<and> b)"
| "elem_less a b = (elem_rank a < elem_rank b)"

fun key_less :: "jsval list \<Rightarrow> jsval list \<Rightarrow> bool" where
  "key_less [] [] = False"
| "key_less [] (y # ys) = True"
| "key_less (x # xs) [] = False"
| "key_less (x # xs) (y # ys) = (elem_less x y \<or> (x = y \<and> key_less xs ys))"

fun kv_insort :: "(jsval list \<times> jsval) \<Rightarrow> (jsval list \<times> jsval) list \<Rightarrow> (jsval list \<times> jsval) list" where
  "kv_insort e [] = [e]"
| "kv_insort e (x # xs) =
     (if key_less (fst e) (fst x) then e # x # xs else x # kv_insort e xs)"

definition kv_sort :: "(jsval list \<times> jsval) list \<Rightarrow> (jsval list \<times> jsval) list" where
  "kv_sort xs = foldr kv_insort xs []"

definition in_range :: "options \<Rightarrow> jsval list \<Rightarrow> bool" where
  "in_range opts k =
     ((case o_start opts of None \<Rightarrow> True | Some b \<Rightarrow> \<not> key_less k b) \<and>
      (case o_startAfter opts of None \<Rightarrow> True | Some b \<Rightarrow> key_less b k) \<and>
      (case o_end opts of None \<Rightarrow> True | Some b \<Rightarrow> \<not> key_less b k) \<and>
      (case o_endBefore opts of None \<Rightarrow> True | Some b \<Rightarrow> key_less k b))"

definition has_prefix :: "jsval list \<Rightarrow> jsval list \<Rightarrow> bool" where
  "has_prefix p k = (take (length p) k = p)"

definition kv_select :: "options \<Rightarrow> (jsval list \<times> jsval) list \<Rightarrow> (jsval list \<times> jsval) list" where
  "kv_select opts kvs =
     (let p = o_prefix opts;
          matching = filter (\<lambda>e. has_prefix p (fst e) \<and> in_range opts (drop (length p) (fst e))) kvs;
          ordered = kv_sort matching;
          directed = (if o_reverse opts then rev ordered else ordered)
      in case o_limit opts of None \<Rightarrow> directed | Some n \<Rightarrow> take n directed)"

definition logged :: "kvop \<Rightarrow> dstate \<Rightarrow> dstate" where
  "logged op s = s\<lparr>kvlog := kvlog s @ [op]\<rparr>"

definition store_get :: "jsval list \<Rightarrow> bool option \<Rightarrow> jsval m" where
  "store_get key errorIfMissing s =
     (case map_of (kv s) key of
        Some v \<Rightarrow> Return v (logged (KGet key) s)
      | None \<Rightarrow>
          if errorIfMissing \<noteq> Some False then Throw (KVMissing key) (logged (KGet key) s)
          else Return Undefined (logged (KGet key) s))"

definition store_put :: "jsval list \<Rightarrow> jsval \<Rightarrow> bool option \<Rightarrow> bool option \<Rightarrow> unit m" where
  "store_put key v errorIfExists createIfMissing s =
     (let s' = logged (KPut key v) s; present = (map_of (kv s) key \<noteq> None) in
      if errorIfExists = Some True \<and> present then Throw (KVExists key) s'
      else if errorIfExists \<noteq> Some True \<and> createIfMissing = Some False \<and> \<not> present
        then Throw (KVMissing key) s'
      else Return () (s'\<lparr>kv := AList.update key v (kv s)\<rparr>))"

definition store_delete :: "jsval list \<Rightarrow> bool option \<Rightarrow> bool m" where
  "store_delete key errorIfMissing s =
     (let s' = logged (KDelete key) s in
      if map_of (kv s) key \<noteq> None then Return True (s'\<lparr>kv := AList.delete key (kv s)\<rparr>)
      else if errorIfMissing \<noteq> Some False then Throw (KVMissing key) s'
      else Return False s')"

fun lookup_many :: "(jsval list \<times> jsval) list \<Rightarrow> bool \<Rightarrow> bool \<Rightarrow> jsval list list \<Rightarrow> error + kvitem list" where
  "lookup_many kvs strict withValues [] = Inr []"
| "lookup_many kvs strict withValues (k # ks) =
     (case map_of kvs k of
        None \<Rightarrow> if strict then Inl (KVMissing k) else lookup_many kvs strict withValues ks
      | Some v \<Rightarrow>
         (case lookup_many kvs strict withValues ks of
            Inl e \<Rightarrow> Inl e
          | Inr items \<Rightarrow>
              Inr (\<lparr>it_key = k, it_value = (if withValues then v else Undefined)\<rparr> # items)))"

definition store_getMany :: "jsval list list \<Rightarrow> options \<Rightarrow> kvitem list m" where
  "store_getMany keys opts s =
     (case lookup_many (kv s) (o_errorIfMissing opts \<noteq> Some False) (o_returnValues opts) keys of
        Inl e \<Rightarrow> Throw e (logged (KGetMany keys) s)
      | Inr items \<Rightarrow> Return items (logged (KGetMany keys) s))"

definition store_find :: "options \<Rightarrow> kvitem list m" where
  "store_find opts s =
     Return (map (\<lambda>e. \<lparr>it_key = fst e,
                        it_value = (if o_returnValues opts then snd e else Undefined)\<rparr>)
               (kv_select opts (kv s)))
            (logged (KFind opts) s)"

definition store_count :: "options \<Rightarrow> nat m" where
  "store_count opts s = Return (length (kv_select opts (kv s))) (logged (KCount opts) s)"

text \<open>
  The range delete removes every pair under the prefix; the descriptor sits at key
  \<open>[name]\<close>, so it goes when the prefix is a prefix of that key.
\<close>

definition store_findAndDelete :: "ctx \<Rightarrow> jsval list \<Rightarrow> nat m" where
  "store_findAndDelete c p s =
     (let gone = filter (\<lambda>e. has_prefix p (fst e)) (kv s);
          metaGone = (has_prefix p [JStr (ds_name c)] \<and> meta s \<noteq> None) in
      Return (length gone + (if metaGone then 1 else 0))
        ((logged (KFindAndDelete p) s)
           \<lparr>kv := filter (\<lambda>e. \<not> has_prefix p (fst e)) (kv s),
            meta := (if metaGone then None else meta s)\<rparr>))"

text \<open>
  A transaction of the engine commits when its body returns and aborts when the body
  throws: the content of the engine goes back to what it was.
\<close>

definition store_transaction :: "'a m \<Rightarrow> 'a m" where
  "store_transaction body s =
     (case body s of
        Return x s' \<Rightarrow> Return x s'
      | Throw e s' \<Rightarrow> Throw e (s'\<lparr>meta := meta s, kv := kv s\<rparr>)
      | OutOfFuel \<Rightarrow> OutOfFuel)"


section \<open>The document store\<close>

definition VERSION :: int where
  "VERSION = 3"

text \<open>
  The constructor: name and URL are required, the collections are added one by one
  and a duplicate name is refused; \<open>this.root = this\<close>.
\<close>

datatype collref = ByName string | ByObj collection

definition getCollection :: "collection list \<Rightarrow> string \<Rightarrow> bool \<Rightarrow> error + collection option" where
  "getCollection cs nm errorIfMissing =
     (case List.find (\<lambda>collection. cname collection = nm) cs of
        None \<Rightarrow> if errorIfMissing then Inl TypeError else Inr None
      | Some collection \<Rightarrow> Inr (Some collection))"

definition quoted :: "string \<Rightarrow> string" where
  "quoted str = [CHR 0x27] @ str @ [CHR 0x27]"

definition addCollection :: "string \<Rightarrow> collection list \<Rightarrow> collection \<Rightarrow> error + collection list" where
  "addCollection nm cs collection =
     (case getCollection cs (cname collection) False of
        Inl e \<Rightarrow> Inl e
      | Inr (Some existingCollection) \<Rightarrow>
          Inl (Error (''Collection '' @ quoted (cname collection) @ '' (document store '' @
                      quoted nm @ '') already exists''))
      | Inr None \<Rightarrow> Inr (cs @ [collection]))"

fun addCollections :: "string \<Rightarrow> collection list \<Rightarrow> collection list \<Rightarrow> error + collection list" where
  "addCollections nm cs [] = Inr cs"
| "addCollections nm cs (collection # rest) =
     (case addCollection nm cs collection of
        Inl e \<Rightarrow> Inl e
      | Inr cs' \<Rightarrow> addCollections nm cs' rest)"

definition DocumentStore :: "string \<Rightarrow> string \<Rightarrow> collection list \<Rightarrow> nat \<Rightarrow> error + ctx" where
  "DocumentStore nm url cs ident =
     (if nm = [] then Inl (Error ''Document store name is missing'')
      else if url = [] then Inl (Error ''Document store URL is missing'')
      else case addCollections nm [] cs of
             Inl e \<Rightarrow> Inl e
           | Inr cs' \<Rightarrow>
               Inr \<lparr>ds_name = nm, ds_collections = cs', ds_self = ident, ds_root = ident\<rparr>)"

definition insideTransaction :: "ctx \<Rightarrow> bool" where
  "insideTransaction c = (ds_self c \<noteq> ds_root c)"

subsection \<open>Helpers\<close>

definition normalizeCollection :: "ctx \<Rightarrow> collref \<Rightarrow> error + collection" where
  "normalizeCollection c cref =
     (case cref of
        ByName nm \<Rightarrow>
          (case getCollection (ds_collections c) nm True of
             Inl e \<Rightarrow> Inl e
           | Inr None \<Rightarrow> Inl TypeError
           | Inr (Some collection) \<Rightarrow> Inr collection)
      | ByObj collection \<Rightarrow> Inr collection)"

definition makeItemKey :: "ctx \<Rightarrow> collection \<Rightarrow> jsval \<Rightarrow> jsval list" where
  "makeItemKey c collection key = [JStr (ds_name c), JStr (cname collection), key]"

text \<open>\<open>value[k]\<close>: a type error on \<open>undefined\<close> and \<open>null\<close>.\<close>

definition js_prop :: "jsval \<Rightarrow> string \<Rightarrow> error + jsval" where
  "js_prop v k =
     (case v of
        Undefined \<Rightarrow> Inl TypeError
      | Null \<Rightarrow> Inl TypeError
      | JObj ps \<Rightarrow> Inr (obj_get ps k)
      | _ \<Rightarrow> Inr Undefined)"

definition makeOrderKey :: "jsval \<Rightarrow> jsval \<Rightarrow> string list option \<Rightarrow> error + jsval list" where
  "makeOrderKey key v order =
     (case mapE (js_prop v) (case order of None \<Rightarrow> [] | Some ks \<Rightarrow> ks) of
        Inl e \<Rightarrow> Inl e
      | Inr orderKey \<Rightarrow> Inr (orderKey @ [key]))"

definition normalizeKey :: "jsval \<Rightarrow> error + jsval" where
  "normalizeKey key =
     (if typeof key \<noteq> ''number'' \<and> typeof key \<noteq> ''string''
        then Inl (Error ''Invalid key type'')
      else if \<not> truthy key then Inl (Error ''Specified key is null or empty'')
      else Inr key)"

definition normalizeItem :: "jsval \<Rightarrow> error + jsval" where
  "normalizeItem item =
     (if \<not> (truthy item \<and> typeof item = ''object'') then Inl (Error ''Invalid item type'')
      else Inr item)"

definition normalizeOptions :: "options \<Rightarrow> error + options" where
  "normalizeOptions opts =
     (case o_properties opts of
        None \<Rightarrow> Inr (opts\<lparr>o_properties := Some (JStr ''*'')\<rparr>)
      | Some p \<Rightarrow>
          if p = JStr ''*'' then Inr opts
          else (case p of
                  JArr xs \<Rightarrow> Inr opts
                | Undefined \<Rightarrow> Inr (opts\<lparr>o_properties := Some (JArr [])\<rparr>)
                | Null \<Rightarrow> Inr (opts\<lparr>o_properties := Some (JArr [])\<rparr>)
                | _ \<Rightarrow> Inl (Error ''Invalid 'properties' option'')))"

text \<open>\<open>options.properties === '*' || options.properties.length\<close>, as a truth value.\<close>

definition wantsValues :: "options \<Rightarrow> bool" where
  "wantsValues opts =
     (case o_properties opts of
        Some (JStr p) \<Rightarrow> p \<noteq> []
      | Some (JArr xs) \<Rightarrow> xs \<noteq> []
      | _ \<Rightarrow> False)"

subsection \<open>Indexes\<close>

fun join :: "string \<Rightarrow> string list \<Rightarrow> string" where
  "join sep [] = []"
| "join sep [k] = k"
| "join sep (k # ks) = k @ sep @ join sep ks"

definition makeIndexName :: "string list \<Rightarrow> string" where
  "makeIndexName keys = join ''+'' keys"

definition makeIndexCollectionName :: "string \<Rightarrow> string \<Rightarrow> string" where
  "makeIndexCollectionName collectionName indexName = collectionName @ '':'' @ indexName"

definition makeIndexKey :: "ctx \<Rightarrow> collection \<Rightarrow> index \<Rightarrow> jsval list \<Rightarrow> jsval \<Rightarrow> jsval list" where
  "makeIndexKey c collection idx vals key =
     (let indexName = makeIndexName (ikeys idx);
          indexKey = [JStr (ds_name c), JStr (makeIndexCollectionName (cname collection) indexName)]
      in (indexKey @ vals) @ [key])"

text \<open>
  \<open>keys[i]\<close> is \<open>undefined\<close> past the end of \<open>keys\<close>, and \<open>query[undefined]\<close> reads the
  property named "undefined".
\<close>

definition makeIndexKeyForQuery ::
  "ctx \<Rightarrow> collection \<Rightarrow> index \<Rightarrow> (string \<times> jsval) list option \<Rightarrow> jsval list" where
  "makeIndexKeyForQuery c collection idx query0 =
     (let query = (case query0 of None \<Rightarrow> [] | Some q \<Rightarrow> q);
          indexName = makeIndexName (ikeys idx);
          indexKey = [JStr (ds_name c), JStr (makeIndexCollectionName (cname collection) indexName)];
          keys = map pkey (iproperties idx);
          queryKeys = map fst query
      in indexKey @
         map (\<lambda>i. obj_get query (if i < length keys then keys ! i else ''undefined''))
             [0..<length queryKeys])"

text \<open>The value tuple of an item for an index, one value per declared property.\<close>

definition index_values :: "index \<Rightarrow> jsval \<Rightarrow> jsval list" where
  "index_values idx item =
     map (\<lambda>property.
            case pvalue property of
              PTrue \<Rightarrow> js_and item (obj_get (flatten item) (pkey property))
            | PFun f \<Rightarrow> js_and item (f item))
         (iproperties idx)"

text \<open>
  The projection of a flattened item: the non-null values at the projection paths;
  it stays \<open>undefined\<close> until a first value is found.
\<close>

fun project :: "(string \<times> jsval) list \<Rightarrow> string list \<Rightarrow> jsval \<Rightarrow> jsval" where
  "project flattened [] projection = projection"
| "project flattened (k # ks) projection =
     (let val = obj_get flattened k in
      if val \<noteq> Undefined \<and> val \<noteq> Null
        then project flattened ks
               (JObj (AList.update k val (case projection of JObj ps \<Rightarrow> ps | _ \<Rightarrow> [])))
      else project flattened ks projection)"

definition index_projection :: "index \<Rightarrow> jsval \<Rightarrow> jsval" where
  "index_projection idx item =
     (case iprojection idx of
        None \<Rightarrow> Undefined
      | Some paths \<Rightarrow> project (flatten item) paths Undefined)"

definition updateIndex :: "ctx \<Rightarrow> collection \<Rightarrow> jsval \<Rightarrow> jsval \<Rightarrow> jsval \<Rightarrow> index \<Rightarrow> unit m" where
  "updateIndex c collection key oldItem newItem idx =
     (let oldValues = index_values idx oldItem;
          newValues = index_values idx newItem;
          oldProjection = index_projection idx oldItem;
          newProjection = index_projection idx newItem;
          valuesAreDifferent = (\<not> isEqual (JArr oldValues) (JArr newValues));
          projectionIsDifferent = (\<not> isEqual oldProjection newProjection)
      in bind (if valuesAreDifferent \<and> Undefined \<notin> set oldValues
                 then bind (store_delete (makeIndexKey c collection idx oldValues key) None)
                        (\<lambda>deleted. ret ())
               else ret ())
           (\<lambda>u. if (valuesAreDifferent \<or> projectionIsDifferent) \<and> Undefined \<notin> set newValues
                   then store_put (makeIndexKey c collection idx newValues key) newProjection
                          None None
                 else ret ()))"

definition updateIndexes :: "ctx \<Rightarrow> collection \<Rightarrow> jsval \<Rightarrow> jsval \<Rightarrow> jsval \<Rightarrow> unit m" where
  "updateIndexes c collection key oldItem newItem =
     foldM (\<lambda>idx u. updateIndex c collection key oldItem newItem idx) (cindexes collection) ()"


subsection \<open>Reading\<close>

text \<open>
  Every operation that calls \<open>this.initializeDocumentStore()\<close> takes that method as its
  first argument \<open>init\<close>; the knot is tied in \<open>initializeDocumentStore\<close> below.
\<close>

record ditem =
  d_key :: jsval
  d_value :: jsval

definition getMany :: "(ctx \<Rightarrow> unit m) \<Rightarrow> ctx \<Rightarrow> collref \<Rightarrow> jsval \<Rightarrow> options \<Rightarrow> ditem list m" where
  "getMany init c cref keys opts0 =
     (case normalizeCollection c cref of
        Inl e \<Rightarrow> throw e
      | Inr collection \<Rightarrow>
         (case keys of
            JArr ks \<Rightarrow>
              if ks = [] then ret []
              else (case mapE normalizeKey ks of
                      Inl e \<Rightarrow> throw e
                    | Inr ks' \<Rightarrow>
                       (case normalizeOptions opts0 of
                          Inl e \<Rightarrow> throw e
                        | Inr opts1 \<Rightarrow>
                            let itemKeys = map (makeItemKey c collection) ks';
                                opts = opts1\<lparr>o_returnValues := wantsValues opts1\<rparr>
                            in bind (init c) (\<lambda>u.
                               bind (store_getMany itemKeys opts) (\<lambda>items.
                               ret (map (\<lambda>item.
                                      \<lparr>d_key = last_js (it_key item),
                                       d_value = (if o_returnValues opts then it_value item
                                                  else Undefined)\<rparr>) items)))))
          | _ \<Rightarrow> throw (Error ''Invalid keys (should be an array)'')))"

definition isEmpty_query :: "(string \<times> jsval) list option \<Rightarrow> bool" where
  "isEmpty_query q = (case q of None \<Rightarrow> True | Some ps \<Rightarrow> ps = [])"

definition isEmpty_order :: "string list option \<Rightarrow> bool" where
  "isEmpty_order q = (case q of None \<Rightarrow> True | Some ks \<Rightarrow> ks = [])"

text \<open>\<open>difference(properties, projection)\<close> of lodash: a missing projection is ignored.\<close>

definition difference :: "jsval list \<Rightarrow> string list option \<Rightarrow> jsval list" where
  "difference props projection =
     filter (\<lambda>p. p \<notin> JStr ` set (case projection of None \<Rightarrow> [] | Some ks \<Rightarrow> ks)) props"

definition findWithIndex :: "(ctx \<Rightarrow> unit m) \<Rightarrow> ctx \<Rightarrow> collection \<Rightarrow> options \<Rightarrow> ditem list m" where
  "findWithIndex init c collection opts0 =
     (case findIndexForQueryAndOrder collection (o_query opts0) (o_order opts0) of
        Inl e \<Rightarrow> throw e
      | Inr idx \<Rightarrow>
          let fetchItem0 = (o_properties opts0 = Some (JStr ''*''));
              props = (case o_properties opts0 of Some (JArr xs) \<Rightarrow> xs | _ \<Rightarrow> []);
              useProjection = (\<not> fetchItem0 \<and> props \<noteq> [] \<and> difference props (iprojection idx) = []);
              fetchItem = (fetchItem0 \<or> (props \<noteq> [] \<and> \<not> useProjection));
              opts = opts0\<lparr>o_prefix := makeIndexKeyForQuery c collection idx (o_query opts0),
                          o_returnValues := useProjection\<rparr>
          in bind (init c) (\<lambda>u.
             bind (store_find opts) (\<lambda>items.
             let transformedItems =
                   map (\<lambda>item. \<lparr>d_key = last_js (it_key item),
                                 d_value = (if useProjection then it_value item else Undefined)\<rparr>)
                       items
             in if fetchItem
                  then getMany init c (ByObj collection) (JArr (map d_key transformedItems))
                         (no_options\<lparr>o_errorIfMissing := Some False\<rparr>)
                else ret transformedItems)))"

definition find_ds :: "(ctx \<Rightarrow> unit m) \<Rightarrow> ctx \<Rightarrow> collref \<Rightarrow> options \<Rightarrow> ditem list m" where
  "find_ds init c cref opts0 =
     (case normalizeCollection c cref of
        Inl e \<Rightarrow> throw e
      | Inr collection \<Rightarrow>
         (case normalizeOptions opts0 of
            Inl e \<Rightarrow> throw e
          | Inr opts1 \<Rightarrow>
              if \<not> isEmpty_query (o_query opts1) \<or> \<not> isEmpty_order (o_order opts1)
                then findWithIndex init c collection opts1
              else
                let opts = opts1\<lparr>o_prefix := [JStr (ds_name c), JStr (cname collection)],
                                 o_returnValues := wantsValues opts1\<rparr>
                in bind (init c) (\<lambda>u.
                   bind (store_find opts) (\<lambda>items.
                   ret (map (\<lambda>item.
                          \<lparr>d_key = last_js (it_key item),
                           d_value = (if o_returnValues opts then it_value item
                                      else Undefined)\<rparr>) items)))))"

definition countWithIndex :: "(ctx \<Rightarrow> unit m) \<Rightarrow> ctx \<Rightarrow> collection \<Rightarrow> options \<Rightarrow> nat m" where
  "countWithIndex init c collection opts0 =
     (case findIndexForQueryAndOrder collection (o_query opts0) (o_order opts0) of
        Inl e \<Rightarrow> throw e
      | Inr idx \<Rightarrow>
          let opts = opts0\<lparr>o_prefix := makeIndexKeyForQuery c collection idx (o_query opts0)\<rparr>
          in bind (init c) (\<lambda>u. store_count opts))"

definition count_ds :: "(ctx \<Rightarrow> unit m) \<Rightarrow> ctx \<Rightarrow> collref \<Rightarrow> options \<Rightarrow> nat m" where
  "count_ds init c cref opts0 =
     (case normalizeCollection c cref of
        Inl e \<Rightarrow> throw e
      | Inr collection \<Rightarrow>
         (case normalizeOptions opts0 of
            Inl e \<Rightarrow> throw e
          | Inr opts1 \<Rightarrow>
              if \<not> isEmpty_query (o_query opts1) \<or> \<not> isEmpty_order (o_order opts1)
                then countWithIndex init c collection opts1
              else
                let opts = opts1\<lparr>o_prefix := [JStr (ds_name c), JStr (cname collection)]\<rparr>
                in bind (init c) (\<lambda>u. store_count opts)))"

text \<open>
  \<open>forEach\<close>: batches of \<open>batchSize\<close> items, each batch resumed after the last item of
  the one before. The fuel bounds the number of batches.
\<close>

fun forEach_loop ::
  "nat \<Rightarrow> (ctx \<Rightarrow> unit m) \<Rightarrow> ctx \<Rightarrow> collection \<Rightarrow> options \<Rightarrow> (jsval \<Rightarrow> jsval \<Rightarrow> unit m) \<Rightarrow> unit m" where
  "forEach_loop 0 init c collection opts fn = (\<lambda>s. OutOfFuel)"
| "forEach_loop (Suc n) init c collection opts fn =
     bind (find_ds init c (ByObj collection) opts) (\<lambda>items.
       if items = [] then ret ()
       else bind (foldM (\<lambda>item u. fn (d_value item) (d_key item)) items ()) (\<lambda>u.
            let lastItem = last items in
            case makeOrderKey (d_key lastItem) (d_value lastItem) (o_order opts) of
              Inl e \<Rightarrow> throw e
            | Inr orderKey \<Rightarrow>
                forEach_loop n init c collection
                  (opts\<lparr>o_startAfter := Some orderKey, o_start := None\<rparr>) fn))"

definition forEach ::
  "nat \<Rightarrow> (ctx \<Rightarrow> unit m) \<Rightarrow> ctx \<Rightarrow> collref \<Rightarrow> options \<Rightarrow> (jsval \<Rightarrow> jsval \<Rightarrow> unit m) \<Rightarrow> unit m" where
  "forEach n init c cref opts0 fn =
     (case normalizeCollection c cref of
        Inl e \<Rightarrow> throw e
      | Inr collection \<Rightarrow>
         (case normalizeOptions opts0 of
            Inl e \<Rightarrow> throw e
          | Inr opts1 \<Rightarrow>
              let batchSize = (case o_batchSize opts1 of
                                 None \<Rightarrow> 250
                               | Some b \<Rightarrow> if b = 0 then 250 else b);
                  opts = opts1\<lparr>o_batchSize := Some batchSize, o_limit := Some batchSize\<rparr>
              in forEach_loop n init c collection opts fn))"


subsection \<open>The descriptor and the schema lifecycle\<close>

definition loadDocumentStoreRecord :: "ctx \<Rightarrow> bool \<Rightarrow> store_record option m" where
  "loadDocumentStoreRecord c errorIfMissing s =
     (case meta s of
        Some record \<Rightarrow> Return (Some record) (logged (KGet [JStr (ds_name c)]) s)
      | None \<Rightarrow>
          if errorIfMissing
            then Throw (KVMissing [JStr (ds_name c)]) (logged (KGet [JStr (ds_name c)]) s)
          else Return None (logged (KGet [JStr (ds_name c)]) s))"

text \<open>
  \<open>put([name], record, {errorIfExists, createIfMissing: !errorIfExists})\<close>.
\<close>

definition saveDocumentStoreRecord :: "ctx \<Rightarrow> store_record \<Rightarrow> bool \<Rightarrow> unit m" where
  "saveDocumentStoreRecord c record errorIfExists s =
     (let s' = logged (KPutRecord [JStr (ds_name c)] record) s in
      if errorIfExists \<and> meta s \<noteq> None then Throw (KVExists [JStr (ds_name c)]) s'
      else Return () (s'\<lparr>meta := Some record\<rparr>))"

definition createDocumentStoreIfDoesNotExist :: "ctx \<Rightarrow> bool m" where
  "createDocumentStoreIfDoesNotExist c =
     store_transaction
       (bind (loadDocumentStoreRecord c False) (\<lambda>r.
          case r of
            Some record \<Rightarrow> ret False
          | None \<Rightarrow>
              let record = \<lparr>rname = ds_name c, version = VERSION, isLocked = False,
                            rcollections = map collection_toJSON (ds_collections c),
                            lastMigrationNumber = None, tables = None\<rparr>
              in bind (saveDocumentStoreRecord c record True) (\<lambda>u.
                 bind (emit DidCreate) (\<lambda>u. ret True))))"

text \<open>
  The lock loop: one attempt per unit of fuel; a failed attempt sleeps and retries.
\<close>

fun lockDocumentStore :: "nat \<Rightarrow> ctx \<Rightarrow> unit m" where
  "lockDocumentStore 0 c = (\<lambda>s. OutOfFuel)"
| "lockDocumentStore (Suc n) c =
     bind (store_transaction
             (bind (loadDocumentStoreRecord c True) (\<lambda>r.
                case r of
                  None \<Rightarrow> throw TypeError
                | Some record \<Rightarrow>
                    if \<not> isLocked record
                      then bind (saveDocumentStoreRecord c (record\<lparr>isLocked := True\<rparr>) False)
                             (\<lambda>u. ret True)
                    else ret False)))
       (\<lambda>hasBeenLocked. if hasBeenLocked then ret () else lockDocumentStore n c)"

definition unlockDocumentStore :: "ctx \<Rightarrow> unit m" where
  "unlockDocumentStore c =
     bind (loadDocumentStoreRecord c True) (\<lambda>r.
       case r of
         None \<Rightarrow> throw TypeError
       | Some record \<Rightarrow> saveDocumentStoreRecord c (record\<lparr>isLocked := False\<rparr>) False)"

text \<open>\<open>index.name\<close> on an index of a legacy table.\<close>

definition legacy_fixups :: "store_record \<Rightarrow> error + store_record" where
  "legacy_fixups record =
     (case tables record of
        None \<Rightarrow> Inl TypeError
      | Some ts \<Rightarrow>
         (case mapE (\<lambda>table. case mapE (\<lambda>idx. js_prop idx ''name'') (tindexes table) of
                                Inl e \<Rightarrow> Inl e
                              | Inr names \<Rightarrow> Inr (table\<lparr>tindexes := names\<rparr>)) ts of
            Inl e \<Rightarrow> Inl e
          | Inr ts' \<Rightarrow> Inr (record\<lparr>lastMigrationNumber := None, tables := Some ts'\<rparr>)))"

definition upgradeDocumentStore :: "ctx \<Rightarrow> unit m" where
  "upgradeDocumentStore c =
     bind (loadDocumentStoreRecord c True) (\<lambda>r.
       case r of
         None \<Rightarrow> throw TypeError
       | Some record \<Rightarrow>
           if version record = VERSION then ret ()
           else if version record > VERSION
             then throw (Error ''Cannot downgrade the document store'')
           else bind (emit UpgradeDidStart) (\<lambda>u.
                case (if version record < 2 then legacy_fixups record else Inr record) of
                  Inl e \<Rightarrow> throw e
                | Inr record1 \<Rightarrow>
                    if version record < 3
                      then throw (Error ''Cannot upgrade the document store to version 3 automatically'')
                    else bind (saveDocumentStoreRecord c (record1\<lparr>version := VERSION\<rparr>) False)
                           (\<lambda>u. emit UpgradeDidStop)))"

definition verifyDocumentStore :: "ctx \<Rightarrow> unit m" where
  "verifyDocumentStore c = ret ()"

definition emitMigrationDidStart :: "unit m" where
  "emitMigrationDidStart s =
     (if \<not> migrationDidStartEventHasBeenEmitted s
        then Return () (s\<lparr>events := events s @ [MigrationDidStart],
                          migrationDidStartEventHasBeenEmitted := True\<rparr>)
      else Return () s)"

definition emitMigrationDidStop :: "unit m" where
  "emitMigrationDidStop s =
     (if migrationDidStartEventHasBeenEmitted s
        then Return () (s\<lparr>events := events s @ [MigrationDidStop],
                          migrationDidStartEventHasBeenEmitted := False\<rparr>)
      else Return () s)"

definition addIndex :: "nat \<Rightarrow> (ctx \<Rightarrow> unit m) \<Rightarrow> ctx \<Rightarrow> collection \<Rightarrow> index \<Rightarrow> unit m" where
  "addIndex n init c collection idx =
     forEach n init c (ByObj collection) no_options
       (\<lambda>item key. updateIndex c collection key Undefined item idx)"

definition removeIndex :: "ctx \<Rightarrow> string \<Rightarrow> string list \<Rightarrow> unit m" where
  "removeIndex c collectionName indexKeys =
     (let indexName = makeIndexName indexKeys;
          prefix = [JStr (ds_name c), JStr (makeIndexCollectionName collectionName indexName)]
      in bind (store_findAndDelete c prefix) (\<lambda>n. ret ()))"

text \<open>
  The descriptor \<open>record\<close> is a local object that the migration mutates and saves; the
  loops thread it. \<open>existingCollection\<close> is the element of \<open>record.collections\<close> at
  position \<open>i\<close>.
\<close>

definition update_collection :: "nat \<Rightarrow> (pcollection \<Rightarrow> pcollection) \<Rightarrow> store_record \<Rightarrow> store_record" where
  "update_collection i f record =
     record\<lparr>rcollections := (rcollections record)[i := f (rcollections record ! i)]\<rparr>"

definition migrate_added_index ::
  "nat \<Rightarrow> (ctx \<Rightarrow> unit m) \<Rightarrow> ctx \<Rightarrow> collection \<Rightarrow> nat \<Rightarrow> index \<Rightarrow> store_record \<Rightarrow> store_record m" where
  "migrate_added_index n init c collection i idx record =
     (case List.find (\<lambda>existingIndex. pikeys existingIndex = ikeys idx)
             (pcindexes (rcollections record ! i)) of
        Some found \<Rightarrow> ret record
      | None \<Rightarrow>
          bind emitMigrationDidStart (\<lambda>u.
          bind (addIndex n init c collection idx) (\<lambda>u.
          let record' = update_collection i
                          (\<lambda>e. e\<lparr>pcindexes := pcindexes e @ [index_toJSON idx]\<rparr>) record
          in bind (saveDocumentStoreRecord c record' False) (\<lambda>u. ret record'))))"

definition migrate_removed_index ::
  "ctx \<Rightarrow> collection \<Rightarrow> nat \<Rightarrow> string list \<Rightarrow> store_record \<Rightarrow> store_record m" where
  "migrate_removed_index c collection i existingIndexKeys record =
     (case List.find (\<lambda>idx. ikeys idx = existingIndexKeys) (cindexes collection) of
        Some found \<Rightarrow> ret record
      | None \<Rightarrow>
          bind emitMigrationDidStart (\<lambda>u.
          bind (removeIndex c (cname collection) existingIndexKeys) (\<lambda>u.
          case findIndex (\<lambda>idx. pikeys idx = existingIndexKeys)
                 (pcindexes (rcollections record ! i)) of
            None \<Rightarrow> throw AssertionError
          | Some j \<Rightarrow>
              let record' = update_collection i
                              (\<lambda>e. e\<lparr>pcindexes := take j (pcindexes e) @ drop (Suc j) (pcindexes e)\<rparr>)
                              record
              in bind (saveDocumentStoreRecord c record' False) (\<lambda>u. ret record'))))"

definition migrate_declared ::
  "nat \<Rightarrow> (ctx \<Rightarrow> unit m) \<Rightarrow> ctx \<Rightarrow> collection \<Rightarrow> store_record \<Rightarrow> store_record m" where
  "migrate_declared n init c collection record =
     (case findIndex (\<lambda>collec. pcname collec = cname collection) (rcollections record) of
        None \<Rightarrow>
          bind emitMigrationDidStart (\<lambda>u.
          let record' = record\<lparr>rcollections := rcollections record @ [collection_toJSON collection]\<rparr>
          in bind (saveDocumentStoreRecord c record' False) (\<lambda>u. ret record'))
      | Some i \<Rightarrow>
          if hasBeenRemoved (rcollections record ! i)
            then throw (Error ''Adding a collection that has been removed is not implemented yet'')
          else
            bind (foldM (migrate_added_index n init c collection i) (cindexes collection) record)
              (\<lambda>record1.
                 let existingIndexesKeys = map pikeys (pcindexes (rcollections record1 ! i))
                 in foldM (migrate_removed_index c collection i) existingIndexesKeys record1))"

definition migrate_existing :: "ctx \<Rightarrow> nat \<Rightarrow> store_record \<Rightarrow> store_record m" where
  "migrate_existing c j record =
     (let existingCollection = rcollections record ! j in
      if hasBeenRemoved existingCollection then ret record
      else case List.find (\<lambda>collection. cname collection = pcname existingCollection)
                  (ds_collections c) of
             Some collection \<Rightarrow> ret record
           | None \<Rightarrow>
               bind emitMigrationDidStart (\<lambda>u.
               bind (foldM (\<lambda>existingIndex u.
                              removeIndex c (pcname existingCollection) (pikeys existingIndex))
                       (pcindexes existingCollection) ()) (\<lambda>u.
               let record' = update_collection j
                               (\<lambda>e. e\<lparr>pcindexes := [], hasBeenRemoved := True\<rparr>) record
               in bind (saveDocumentStoreRecord c record' False) (\<lambda>u. ret record'))))"

definition migrateDocumentStore :: "nat \<Rightarrow> (ctx \<Rightarrow> unit m) \<Rightarrow> ctx \<Rightarrow> unit m" where
  "migrateDocumentStore n init c =
     bind (loadDocumentStoreRecord c True) (\<lambda>r.
       case r of
         None \<Rightarrow> throw TypeError
       | Some record \<Rightarrow>
           try_finally
             (bind (foldM (migrate_declared n init c) (ds_collections c) record) (\<lambda>record1.
              bind (foldM (migrate_existing c) [0..<length (rcollections record1)] record1)
                (\<lambda>record2. ret ())))
             emitMigrationDidStop)"

text \<open>
  The body of \<open>initializeDocumentStore\<close>; \<open>init\<close> is the method itself, for the calls that
  \<open>find\<close> makes while an index is built.
\<close>

definition initializeDocumentStore_body :: "nat \<Rightarrow> (ctx \<Rightarrow> unit m) \<Rightarrow> ctx \<Rightarrow> unit m" where
  "initializeDocumentStore_body n init c s =
     (if hasBeenInitialized s then Return () s
      else if isInitializing s then Return () s
      else if insideTransaction c
        then Throw (Error ''Cannot initialize the document store inside a transaction'') s
      else
        try_finally
          (bind (createDocumentStoreIfDoesNotExist c) (\<lambda>hasBeenCreated.
           bind (if \<not> hasBeenCreated
                   then bind (lockDocumentStore n c) (\<lambda>u.
                        try_finally
                          (bind (upgradeDocumentStore c) (\<lambda>u.
                           bind (verifyDocumentStore c) (\<lambda>u.
                           migrateDocumentStore n init c)))
                          (unlockDocumentStore c))
                 else ret ()) (\<lambda>u.
           bind (\<lambda>s1. Return () (s1\<lparr>hasBeenInitialized := True\<rparr>)) (\<lambda>u.
           emit DidInitialize))))
          (\<lambda>s1. Return () (s1\<lparr>isInitializing := False\<rparr>))
          (s\<lparr>isInitializing := True\<rparr>))"

primrec initializeDocumentStore :: "nat \<Rightarrow> ctx \<Rightarrow> unit m" where
  "initializeDocumentStore 0 = initializeDocumentStore_body 0 (\<lambda>c s. OutOfFuel)"
| "initializeDocumentStore (Suc n) =
     initializeDocumentStore_body (Suc n) (initializeDocumentStore n)"


definition destroyAll :: "ctx \<Rightarrow> unit m" where
  "destroyAll c s =
     (if insideTransaction c
        then Throw (Error ''Cannot destroy a document store inside a transaction'') s
      else bind (store_findAndDelete c [JStr (ds_name c)]) (\<lambda>n. ret ())
             (s\<lparr>hasBeenInitialized := False\<rparr>))"

subsection \<open>Transactions and basic operations\<close>

text \<open>
  \<open>transaction(fn)\<close>: inside a transaction \<open>fn\<close> runs on \<open>this\<close>; otherwise on a new
  object (\<open>Object.create(this)\<close>: a new identity, the same \<open>root\<close>) within a transaction
  of the engine.
\<close>

definition transaction :: "(ctx \<Rightarrow> unit m) \<Rightarrow> ctx \<Rightarrow> (ctx \<Rightarrow> 'a m) \<Rightarrow> 'a m" where
  "transaction init c fn =
     (if insideTransaction c then fn c
      else bind (init c) (\<lambda>u.
           store_transaction (fn (c\<lparr>ds_self := Suc (ds_self c)\<rparr>))))"

definition get :: "(ctx \<Rightarrow> unit m) \<Rightarrow> ctx \<Rightarrow> collref \<Rightarrow> jsval \<Rightarrow> options \<Rightarrow> jsval m" where
  "get init c cref key0 opts0 =
     (case normalizeCollection c cref of
        Inl e \<Rightarrow> throw e
      | Inr collection \<Rightarrow>
         (case normalizeKey key0 of
            Inl e \<Rightarrow> throw e
          | Inr key \<Rightarrow>
             (case normalizeOptions opts0 of
                Inl e \<Rightarrow> throw e
              | Inr opts \<Rightarrow>
                  bind (init c) (\<lambda>u.
                  store_get (makeItemKey c collection key) (o_errorIfMissing opts)))))"

definition put :: "(ctx \<Rightarrow> unit m) \<Rightarrow> ctx \<Rightarrow> collref \<Rightarrow> jsval \<Rightarrow> jsval \<Rightarrow> options \<Rightarrow> unit m" where
  "put init c cref key0 item0 opts0 =
     (case normalizeCollection c cref of
        Inl e \<Rightarrow> throw e
      | Inr collection \<Rightarrow>
         (case normalizeKey key0 of
            Inl e \<Rightarrow> throw e
          | Inr key \<Rightarrow>
             (case normalizeItem item0 of
                Inl e \<Rightarrow> throw e
              | Inr item \<Rightarrow>
                 (case normalizeOptions opts0 of
                    Inl e \<Rightarrow> throw e
                  | Inr opts \<Rightarrow>
                      bind (init c) (\<lambda>u.
                      transaction init c (\<lambda>tr.
                        let itemKey = makeItemKey tr collection key in
                        bind (store_get itemKey (Some False)) (\<lambda>oldItem.
                        bind (store_put itemKey item (o_errorIfExists opts) (o_createIfMissing opts))
                          (\<lambda>u.
                        bind (updateIndexes tr collection key oldItem item) (\<lambda>u.
                        emit (DidPutItem (cname collection) key item))))))))))"

definition delete :: "(ctx \<Rightarrow> unit m) \<Rightarrow> ctx \<Rightarrow> collref \<Rightarrow> jsval \<Rightarrow> options \<Rightarrow> bool m" where
  "delete init c cref key0 opts0 =
     (case normalizeCollection c cref of
        Inl e \<Rightarrow> throw e
      | Inr collection \<Rightarrow>
         (case normalizeKey key0 of
            Inl e \<Rightarrow> throw e
          | Inr key \<Rightarrow>
             (case normalizeOptions opts0 of
                Inl e \<Rightarrow> throw e
              | Inr opts \<Rightarrow>
                  bind (init c) (\<lambda>u.
                  transaction init c (\<lambda>tr.
                    let itemKey = makeItemKey tr collection key in
                    bind (store_get itemKey (o_errorIfMissing opts)) (\<lambda>oldItem.
                    if truthy oldItem
                      then bind (store_delete itemKey (o_errorIfMissing opts)) (\<lambda>hasBeenDeleted.
                           bind (updateIndexes tr collection key oldItem Undefined) (\<lambda>u.
                           bind (emit (DidDeleteItem (cname collection) key oldItem)) (\<lambda>u.
                           ret hasBeenDeleted)))
                    else ret False))))))"

section \<open>A concrete store\<close>

text \<open>
  The store of the end-to-end scenarios of the specification: store \<open>S\<close>, collection
  \<open>People\<close> with an index on \<open>lastName\<close>, and the item of key \<open>u1\<close>.
\<close>

definition ex_index_lastName :: index where
  "ex_index_lastName =
     \<lparr>ikeys = [''lastName''],
      iproperties = [\<lparr>pkey = ''lastName'', pvalue = PTrue\<rparr>],
      iprojection = None\<rparr>"

definition ex_People :: collection where
  "ex_People = \<lparr>cname = ''People'', cindexes = [ex_index_lastName]\<rparr>"

definition ex_store :: ctx where
  "ex_store = \<lparr>ds_name = ''S'', ds_collections = [ex_People], ds_self = 0, ds_root = 0\<rparr>"




text \<open>An empty engine and a store object just constructed.\<close>

definition ex_fresh :: dstate where
  "ex_fresh =
     \<lparr>meta = None, kv = [], kvlog = [], events = [], hasBeenInitialized = False,
      isInitializing = False, migrationDidStartEventHasBeenEmitted = False\<rparr>"

definition ex_ada :: jsval where
  "ex_ada = JObj [(''firstName'', JStr ''Ada''), (''lastName'', JStr ''L'')]"

text \<open>An index on two keys, for queries that list their keys in another order.\<close>

definition ex_index_names :: index where
  "ex_index_names =
     \<lparr>ikeys = [''lastName'', ''firstName''],
      iproperties = [\<lparr>pkey = ''lastName'', pvalue = PTrue\<rparr>,
                     \<lparr>pkey = ''firstName'', pvalue = PTrue\<rparr>],
      iprojection = None\<rparr>"

text \<open>The descriptor that the first initialization of the store writes.\<close>

definition ex_descriptor :: store_record where
  "ex_descriptor =
     \<lparr>rname = ''S'', version = 3, isLocked = False,
      rcollections = [\<lparr>pcname = ''People'', hasBeenRemoved = False,
                        pcindexes = [\<lparr>pikeys = [''lastName''], piprojection = None\<rparr>]\<rparr>],
      lastMigrationNumber = None, tables = None\<rparr>"

text \<open>A descriptor of version 1, with its legacy fields.\<close>

definition ex_legacy_descriptor :: store_record where
  "ex_legacy_descriptor =
     \<lparr>rname = ''S'', version = 1, isLocked = True, rcollections = [],
      lastMigrationNumber = Some (JNum 7),
      tables = Some [\<lparr>tindexes = [JObj [(''name'', JStr ''byLastName'')]]\<rparr>]\<rparr>"

text \<open>The view of the store that \<open>transaction\<close> hands to its function.\<close>

definition ex_child :: ctx where
  "ex_child = ex_store\<lparr>ds_self := 1\<rparr>"

text \<open>
  The values that are not structured: the scalars. Arrays and records are the others.
\<close>

fun is_scalar :: "jsval \<Rightarrow> bool" where
  "is_scalar Undefined = True"
| "is_scalar Null = True"
| "is_scalar (JBool b) = True"
| "is_scalar (JNum n) = True"
| "is_scalar (JStr s) = True"
| "is_scalar (JArr xs) = False"
| "is_scalar (JObj ps) = False"








text \<open>
  The store \<open>S\<close> after its first initialization, and after the \<open>put\<close> of the item of
  key \<open>u1\<close> that follows.
\<close>

definition ex_created :: dstate where
  "ex_created =
     ex_fresh\<lparr>meta := Some ex_descriptor,
              kvlog := [KGet [JStr ''S''], KPutRecord [JStr ''S''] ex_descriptor],
              events := [DidCreate, DidInitialize],
              hasBeenInitialized := True\<rparr>"


section \<open>Notions used to state the lifecycle properties\<close>

text \<open>
  The persisted collections are in sync with the declared ones: every declared
  collection has a live descriptor (the first of its name) with the same set of index
  keys, and every live descriptor is the descriptor of a declared collection.
\<close>

definition descriptor_matches :: "collection \<Rightarrow> pcollection list \<Rightarrow> bool" where
  "descriptor_matches collection persisted =
     (case findIndex (\<lambda>e. pcname e = cname collection) persisted of
        None \<Rightarrow> False
      | Some i \<Rightarrow>
          (\<not> hasBeenRemoved (persisted ! i)) \<and>
          set (map pikeys (pcindexes (persisted ! i))) = set (map ikeys (cindexes collection)))"

definition removed_or_declared :: "collection list \<Rightarrow> pcollection \<Rightarrow> bool" where
  "removed_or_declared declared e =
     (hasBeenRemoved e \<or>
      List.find (\<lambda>collection. cname collection = pcname e) declared \<noteq> None)"

definition in_sync :: "collection list \<Rightarrow> pcollection list \<Rightarrow> bool" where
  "in_sync declared persisted =
     (list_all (\<lambda>collection. descriptor_matches collection persisted) declared
      \<and> list_all (removed_or_declared declared) persisted)"












text \<open>A second process opening the store that the first one created.\<close>

definition ex_reopened :: dstate where
  "ex_reopened = ex_fresh\<lparr>meta := Some ex_descriptor\<rparr>"

text \<open>
  A store whose collection \<open>People\<close> holds the item \<open>u1\<close> and has no index yet, in the
  middle of an initialization; the options of the batches that \<open>forEach\<close> reads; and the
  state that the migration adding the index on \<open>lastName\<close> leaves.
\<close>

definition ex_unindexed :: dstate where
  "ex_unindexed =
     ex_fresh\<lparr>meta := Some (ex_descriptor
                 \<lparr>rcollections := [\<lparr>pcname = ''People'', hasBeenRemoved = False,
                                     pcindexes = []\<rparr>]\<rparr>),
              kv := [([JStr ''S'', JStr ''People'', JStr ''u1''], ex_ada)],
              isInitializing := True\<rparr>"

definition ex_batch :: "jsval list option \<Rightarrow> options" where
  "ex_batch after =
     no_options\<lparr>o_startAfter := after, o_limit := Some 250, o_properties := Some (JStr ''*''),
                o_batchSize := Some 250, o_prefix := [JStr ''S'', JStr ''People''],
                o_returnValues := True\<rparr>"

definition ex_indexed :: dstate where
  "ex_indexed =
     ex_unindexed
       \<lparr>meta := Some ex_descriptor,
        kv := [([JStr ''S'', JStr ''People'', JStr ''u1''], ex_ada),
               ([JStr ''S'', JStr ''People:lastName'', JStr ''L'', JStr ''u1''], Undefined)],
        kvlog := [KGet [JStr ''S''],
                  KFind (ex_batch None),
                  KPut [JStr ''S'', JStr ''People:lastName'', JStr ''L'', JStr ''u1''] Undefined,
                  KFind (ex_batch (Some [JStr ''u1''])),
                  KPutRecord [JStr ''S''] ex_descriptor],
        events := [MigrationDidStart, MigrationDidStop]\<rparr>"


section \<open>Index maintenance\<close>









section \<open>Key layout\<close>

lemma map_nth_upt_take:
  "n \<le> length ks \<Longrightarrow>
     map (\<lambda>i. f (if i < length ks then ks ! i else d)) [0..<n] = map f (take n ks)"
  by (auto simp: list_eq_iff_nth_eq)

lemma same_record_same_lookup:
  assumes "distinct (map fst q)" "distinct (map fst q')" "set q' = set q"
  shows "obj_get q' = obj_get q" "length q' = length q"
proof -
  have "map_of q' = map_of q"
    using assms by (simp add: map_of_inject_set)
  then show "obj_get q' = obj_get q"
    by (auto simp: obj_get_def fun_eq_iff)
  have "distinct q" "distinct q'"
    using assms(1,2) by (auto simp: distinct_map)
  then show "length q' = length q"
    using assms(3) by (metis distinct_card)
qed

text \<open>
  C3. For a query \<open>q\<close> with \<open>K\<close> keys and an index that has at least \<open>K\<close> keys (as the
  index chosen for the query has), the prefix built by \<open>makeIndexKeyForQuery\<close> is the
  store name, the index collection name, and the values of the query at the first \<open>K\<close>
  keys of the index in declaration order; it does not depend on the order in which the
  caller listed the keys of the query.
\<close>

theorem makeIndexKeyForQuery_declaration_order:
  assumes "map pkey (iproperties idx) = ikeys idx"
      and "length q \<le> length (ikeys idx)"
  shows "makeIndexKeyForQuery c collection idx (Some q) =
           [JStr (ds_name c),
            JStr (makeIndexCollectionName (cname collection) (makeIndexName (ikeys idx)))]
           @ map (obj_get q) (take (length q) (ikeys idx))
         \<and> length (makeIndexKeyForQuery c collection idx (Some q)) = 2 + length q
         \<and> (\<forall>q'. distinct (map fst q) \<and> distinct (map fst q') \<and> set q' = set q \<longrightarrow>
               makeIndexKeyForQuery c collection idx (Some q') =
               makeIndexKeyForQuery c collection idx (Some q))"
proof -
  have key: "\<And>p. length p = length q \<Longrightarrow> makeIndexKeyForQuery c collection idx (Some p) =
           [JStr (ds_name c),
            JStr (makeIndexCollectionName (cname collection) (makeIndexName (ikeys idx)))]
           @ map (obj_get p) (take (length q) (ikeys idx))"
    using assms by (simp add: makeIndexKeyForQuery_def Let_def map_nth_upt_take)
  have perm: "makeIndexKeyForQuery c collection idx (Some q') =
              makeIndexKeyForQuery c collection idx (Some q)"
    if "distinct (map fst q)" "distinct (map fst q')" "set q' = set q" for q'
  proof -
    have "obj_get q' = obj_get q" and "length q' = length q"
      using that by (rule same_record_same_lookup)+
    then show ?thesis
      using key[of q'] key[of q] by simp
  qed
  show ?thesis
    using key[of q] perm assms(2) by simp
qed

theorem makeIndexKeyForQuery_declaration_order_witness:
  "map pkey (iproperties ex_index_names) = ikeys ex_index_names
   \<and> length [(''firstName'', JStr ''Ada''), (''lastName'', JStr ''L'')] \<le> length (ikeys ex_index_names)
   \<and> makeIndexKeyForQuery ex_store ex_People ex_index_names
         (Some [(''firstName'', JStr ''Ada''), (''lastName'', JStr ''L'')])
       = [JStr ''S'', JStr ''People:lastName+firstName'', JStr ''L'', JStr ''Ada'']"
proof -
  have wf: "map pkey (iproperties ex_index_names) = ikeys ex_index_names"
    by (simp add: ex_index_names_def)
  have len: "length [(''firstName'', JStr ''Ada''), (''lastName'', JStr ''L'')]
               \<le> length (ikeys ex_index_names)"
    by (simp add: ex_index_names_def)
  show ?thesis
    using makeIndexKeyForQuery_declaration_order[OF wf len, of ex_store ex_People] wf len
    by (simp add: ex_index_names_def ex_store_def ex_People_def makeIndexCollectionName_def
          makeIndexName_def obj_get_def)
qed

section \<open>Normalization of the arguments\<close>

lemma normalizeKey_zero:
  "normalizeKey (JNum 0) = Inl (Error ''Specified key is null or empty'')"
  by (simp add: normalizeKey_def)

lemma get_key_zero:
  "get init c cref (JNum 0) opts s =
     Throw (case normalizeCollection c cref of
              Inl e \<Rightarrow> e
            | Inr collection \<Rightarrow> Error ''Specified key is null or empty'') s"
  by (simp add: get_def normalizeKey_zero throw_def split: sum.splits)

lemma put_key_zero:
  "put init c cref (JNum 0) item opts s =
     Throw (case normalizeCollection c cref of
              Inl e \<Rightarrow> e
            | Inr collection \<Rightarrow> Error ''Specified key is null or empty'') s"
  by (simp add: put_def normalizeKey_zero throw_def split: sum.splits)

lemma delete_key_zero:
  "delete init c cref (JNum 0) opts s =
     Throw (case normalizeCollection c cref of
              Inl e \<Rightarrow> e
            | Inr collection \<Rightarrow> Error ''Specified key is null or empty'') s"
  by (simp add: delete_def normalizeKey_zero throw_def split: sum.splits)

text \<open>
  C10. The numeric key \<open>0\<close> is rejected: \<open>normalizeKey\<close> throws "Specified key is null
  or empty" on it, and so do \<open>get\<close>, \<open>put\<close> and \<open>delete\<close>, before anything else happens
  (when the collection itself cannot be resolved, that earlier error is thrown).
\<close>

theorem key_zero_rejected:
  "normalizeKey (JNum 0) = Inl (Error ''Specified key is null or empty'')
   \<and> get init c cref (JNum 0) opts s =
       Throw (case normalizeCollection c cref of
                Inl e \<Rightarrow> e
              | Inr collection \<Rightarrow> Error ''Specified key is null or empty'') s
   \<and> put init c cref (JNum 0) item opts s =
       Throw (case normalizeCollection c cref of
                Inl e \<Rightarrow> e
              | Inr collection \<Rightarrow> Error ''Specified key is null or empty'') s
   \<and> delete init c cref (JNum 0) opts s =
       Throw (case normalizeCollection c cref of
                Inl e \<Rightarrow> e
              | Inr collection \<Rightarrow> Error ''Specified key is null or empty'') s"
  using normalizeKey_zero get_key_zero[of init c cref opts s]
        put_key_zero[of init c cref item opts s] delete_key_zero[of init c cref opts s]
  by blast

lemma normalizeItem_scalar:
  "is_scalar item \<Longrightarrow> normalizeItem item = Inl (Error ''Invalid item type'')"
  by (cases item) (simp_all add: normalizeItem_def)

lemma normalizeItem_structured: "\<not> is_scalar item \<Longrightarrow> normalizeItem item = Inr item"
  by (cases item) (simp_all add: normalizeItem_def)

lemma put_scalar:
  "is_scalar item \<Longrightarrow>
   put init c cref key item opts s =
     Throw (case normalizeCollection c cref of
              Inl e \<Rightarrow> e
            | Inr collection \<Rightarrow>
                (case normalizeKey key of
                   Inl e \<Rightarrow> e
                 | Inr k \<Rightarrow> Error ''Invalid item type'')) s"
  by (simp add: put_def normalizeItem_scalar throw_def split: sum.splits)

text \<open>
  C8, as the code has it. A \<open>put\<close> whose item is a scalar (a string, a number, a
  boolean, \<open>null\<close> or \<open>undefined\<close>) throws and leaves the state as it was, so no call
  to the engine is made; the error is "Invalid item type" once the collection and the
  key have passed their own checks. Arrays are not rejected: like records, they pass
  \<open>normalizeItem\<close> unchanged.
\<close>

theorem put_rejects_scalar_items:
  "(is_scalar item \<longrightarrow>
      put init c cref key item opts s =
        Throw (case normalizeCollection c cref of
                 Inl e \<Rightarrow> e
               | Inr collection \<Rightarrow>
                   (case normalizeKey key of
                      Inl e \<Rightarrow> e
                    | Inr k \<Rightarrow> Error ''Invalid item type'')) s)
   \<and> (\<not> is_scalar item \<longrightarrow> normalizeItem item = Inr item)"
  using put_scalar[of item init c cref key opts s] normalizeItem_structured[of item]
  by blast

theorem put_rejects_scalar_items_witness:
  "is_scalar (JStr ''Ada'')
   \<and> put (initializeDocumentStore 1) ex_store (ByName ''People'') (JStr ''u1'') (JStr ''Ada'')
         no_options ex_fresh
       = Throw (Error ''Invalid item type'') ex_fresh
   \<and> \<not> is_scalar ex_ada \<and> normalizeItem ex_ada = Inr ex_ada"
  using put_rejects_scalar_items
          [of "JStr ''Ada''" "initializeDocumentStore 1" ex_store "ByName ''People''"
              "JStr ''u1''" no_options ex_fresh]
        put_rejects_scalar_items[of ex_ada]
  by (simp add: normalizeCollection_def getCollection_def ex_store_def ex_People_def
        normalizeKey_def ex_ada_def)

text \<open>
  The claim as stated fails on arrays: a \<open>put\<close> of an array on the fresh store goes
  through, and the array is stored as the item.
\<close>

theorem put_accepts_array_counterexample:
  "put (initializeDocumentStore 1) ex_store (ByName ''People'') (JStr ''u1'')
     (JArr [JStr ''Ada'']) no_options ex_fresh
   = Return ()
       (ex_fresh\<lparr>meta := Some ex_descriptor,
                 kv := [([JStr ''S'', JStr ''People'', JStr ''u1''], JArr [JStr ''Ada''])],
                 kvlog := [KGet [JStr ''S''],
                           KPutRecord [JStr ''S''] ex_descriptor,
                           KGet [JStr ''S'', JStr ''People'', JStr ''u1''],
                           KPut [JStr ''S'', JStr ''People'', JStr ''u1''] (JArr [JStr ''Ada''])],
                 events := [DidCreate, DidInitialize,
                            DidPutItem ''People'' (JStr ''u1'') (JArr [JStr ''Ada''])],
                 hasBeenInitialized := True\<rparr>)"
  by code_simp

section \<open>Transactions\<close>

lemma initializeDocumentStore_inside:
  "insideTransaction c \<Longrightarrow>
   initializeDocumentStore n c s =
     (if hasBeenInitialized s \<or> isInitializing s then Return () s
      else Throw (Error ''Cannot initialize the document store inside a transaction'') s)"
  by (cases n) (simp_all add: initializeDocumentStore_body_def)

lemma destroyAll_inside:
  "insideTransaction c \<Longrightarrow>
   destroyAll c s = Throw (Error ''Cannot destroy a document store inside a transaction'') s"
  by (simp add: destroyAll_def)

lemma constructed_is_root:
  "DocumentStore nm url cs ident = Inr c' \<Longrightarrow> \<not> insideTransaction c'"
  by (auto simp: DocumentStore_def insideTransaction_def split: if_splits sum.splits)

lemma transaction_hands_child:
  "case transaction init c (\<lambda>tr. ret (insideTransaction tr)) s of
     Return inside s' \<Rightarrow> inside
   | Throw e s' \<Rightarrow> True
   | OutOfFuel \<Rightarrow> True"
  by (auto simp: transaction_def ret_def bind_def store_transaction_def insideTransaction_def
      split: outcome.splits)

text \<open>
  C9, as the code has it. On a context that is inside a transaction, \<open>destroyAll\<close>
  always throws, and \<open>initializeDocumentStore\<close> throws unless the store has been
  initialized or is initializing, in which case it returns at once; in every case the
  state is left as it was. A store object just constructed is its own root, and the
  function given to \<open>transaction\<close> always runs on a context inside a transaction.
\<close>

theorem inside_transaction_guards:
  "(insideTransaction c \<longrightarrow>
      destroyAll c s = Throw (Error ''Cannot destroy a document store inside a transaction'') s
    \<and> initializeDocumentStore n c s =
        (if hasBeenInitialized s \<or> isInitializing s then Return () s
         else Throw (Error ''Cannot initialize the document store inside a transaction'') s))
   \<and> (DocumentStore nm url cs ident = Inr c' \<longrightarrow> \<not> insideTransaction c')
   \<and> (case transaction init c (\<lambda>tr. ret (insideTransaction tr)) s of
         Return inside s' \<Rightarrow> inside
       | Throw e s' \<Rightarrow> True
       | OutOfFuel \<Rightarrow> True)"
  using initializeDocumentStore_inside[of c n s] destroyAll_inside[of c s]
        constructed_is_root[of nm url cs ident c'] transaction_hands_child[of init c s]
  by blast

theorem inside_transaction_guards_witness:
  "insideTransaction ex_child
   \<and> destroyAll ex_child ex_fresh =
       Throw (Error ''Cannot destroy a document store inside a transaction'') ex_fresh
   \<and> initializeDocumentStore 1 ex_child ex_fresh =
       Throw (Error ''Cannot initialize the document store inside a transaction'') ex_fresh
   \<and> DocumentStore ''S'' ''mysql://localhost/db'' [ex_People] 0 = Inr ex_store
   \<and> \<not> insideTransaction ex_store"
  using inside_transaction_guards
          [of ex_child ex_fresh 1 "''S''" "''mysql://localhost/db''" "[ex_People]" 0 ex_store]
  by (simp add: ex_child_def ex_store_def insideTransaction_def ex_fresh_def DocumentStore_def
        addCollection_def getCollection_def)

text \<open>
  The claim as stated fails for \<open>initializeDocumentStore\<close>: inside a transaction of an
  initialized store (the case of every \<open>get\<close> and \<open>put\<close> made in a transaction) it
  returns without throwing.
\<close>

theorem initialize_inside_transaction_counterexample:
  "insideTransaction ex_child
   \<and> initializeDocumentStore 1 ex_child (ex_fresh\<lparr>hasBeenInitialized := True\<rparr>)
       = Return () (ex_fresh\<lparr>hasBeenInitialized := True\<rparr>)"
  by (simp add: ex_child_def ex_store_def insideTransaction_def ex_fresh_def
        initializeDocumentStore_body_def)

section \<open>Upgrade\<close>

lemma upgradeDocumentStore_cases:
  "meta s = Some record \<Longrightarrow>
   upgradeDocumentStore c s =
     (let s1 = s\<lparr>kvlog := kvlog s @ [KGet [JStr (ds_name c)]]\<rparr> in
      if version record = 3 then Return () s1
      else if version record > 3 then Throw (Error ''Cannot downgrade the document store'') s1
      else Throw (if version record < 2
                    then (case legacy_fixups record of
                            Inl e \<Rightarrow> e
                          | Inr r \<Rightarrow> Error ''Cannot upgrade the document store to version 3 automatically'')
                  else Error ''Cannot upgrade the document store to version 3 automatically'')
                 (s1\<lparr>events := events s @ [UpgradeDidStart]\<rparr>))"
  by (simp add: upgradeDocumentStore_def loadDocumentStoreRecord_def bind_def ret_def throw_def
        emit_def logged_def VERSION_def Let_def split: sum.splits)

text \<open>
  C6, as the code has it. With a descriptor in the engine, \<open>upgradeDocumentStore\<close> reads
  it and: returns when the version is 3; throws "Cannot downgrade" when the version is
  above 3; and for every version below 3 emits \<open>upgradeDidStart\<close> and throws. For a
  version below 2 the legacy fixups are applied to the copy in memory only (a type
  error of theirs is the error thrown); the error is otherwise "Cannot upgrade the
  document store to version 3 automatically". In no case is the persisted descriptor
  or any other pair modified: no version is ever upgraded.
\<close>

theorem upgradeDocumentStore_by_version:
  "meta s = Some record \<longrightarrow>
   upgradeDocumentStore c s =
     (let s1 = s\<lparr>kvlog := kvlog s @ [KGet [JStr (ds_name c)]]\<rparr> in
      if version record = 3 then Return () s1
      else if version record > 3 then Throw (Error ''Cannot downgrade the document store'') s1
      else Throw (if version record < 2
                    then (case legacy_fixups record of
                            Inl e \<Rightarrow> e
                          | Inr r \<Rightarrow> Error ''Cannot upgrade the document store to version 3 automatically'')
                  else Error ''Cannot upgrade the document store to version 3 automatically'')
                 (s1\<lparr>events := events s @ [UpgradeDidStart]\<rparr>))"
  using upgradeDocumentStore_cases[of s "record" c] by blast

theorem upgradeDocumentStore_by_version_witness:
  "meta (ex_fresh\<lparr>meta := Some (ex_descriptor\<lparr>version := 2\<rparr>)\<rparr>)
     = Some (ex_descriptor\<lparr>version := 2\<rparr>)
   \<and> upgradeDocumentStore ex_store (ex_fresh\<lparr>meta := Some (ex_descriptor\<lparr>version := 2\<rparr>)\<rparr>)
       = Throw (Error ''Cannot upgrade the document store to version 3 automatically'')
           (ex_fresh\<lparr>meta := Some (ex_descriptor\<lparr>version := 2\<rparr>),
                     kvlog := [KGet [JStr ''S'']], events := [UpgradeDidStart]\<rparr>)"
  using upgradeDocumentStore_by_version
          [of "ex_fresh\<lparr>meta := Some (ex_descriptor\<lparr>version := 2\<rparr>)\<rparr>"
              "ex_descriptor\<lparr>version := 2\<rparr>" ex_store]
  by (simp add: ex_fresh_def ex_descriptor_def ex_store_def Let_def)

text \<open>
  The claim as stated fails at version 1: nothing is upgraded to version 2. The call
  throws, and the descriptor in the engine still has version 1 and its legacy fields.
\<close>

theorem upgrade_from_version_1_counterexample:
  "upgradeDocumentStore ex_store (ex_fresh\<lparr>meta := Some ex_legacy_descriptor\<rparr>)
   = Throw (Error ''Cannot upgrade the document store to version 3 automatically'')
       (ex_fresh\<lparr>meta := Some ex_legacy_descriptor,
                 kvlog := [KGet [JStr ''S'']], events := [UpgradeDidStart]\<rparr>)
   \<and> version ex_legacy_descriptor = 1
   \<and> lastMigrationNumber ex_legacy_descriptor = Some (JNum 7)"
  by code_simp

section \<open>Searching through an index\<close>







section \<open>Where a put stores the item and its index entries\<close>

lemma bind_Return_iff:
  "bind act f s = Return x s' \<longleftrightarrow> (\<exists>y s1. act s = Return y s1 \<and> f y s1 = Return x s')"
  by (auto simp: bind_def split: outcome.splits)







lemma try_finally_Return_iff:
  "try_finally body fin s = Return x s' \<longleftrightarrow>
     (\<exists>s1 u. body s = Return x s1 \<and> fin s1 = Return u s')"
  by (auto simp: try_finally_def split: outcome.splits)

lemma initializeDocumentStore_body_Return:
  assumes "initializeDocumentStore_body n init c s = Return u s'"
  shows "hasBeenInitialized s' \<or> (isInitializing s \<and> s' = s)"
proof (cases "hasBeenInitialized s \<or> isInitializing s \<or> insideTransaction c")
  case True
  then show ?thesis
    using assms by (auto simp: initializeDocumentStore_body_def split: if_splits)
next
  case False
  then obtain s1 where
    "bind (createDocumentStoreIfDoesNotExist c) (\<lambda>hasBeenCreated.
           bind (if \<not> hasBeenCreated
                   then bind (lockDocumentStore n c) (\<lambda>u.
                        try_finally
                          (bind (upgradeDocumentStore c) (\<lambda>u.
                           bind (verifyDocumentStore c) (\<lambda>u.
                           migrateDocumentStore n init c)))
                          (unlockDocumentStore c))
                 else ret ()) (\<lambda>u.
           bind (\<lambda>s1. Return () (s1\<lparr>hasBeenInitialized := True\<rparr>)) (\<lambda>u.
           emit DidInitialize))) (s\<lparr>isInitializing := True\<rparr>) = Return u s1"
    and s': "s' = s1\<lparr>isInitializing := False\<rparr>"
    using assms by (auto simp: initializeDocumentStore_body_def try_finally_Return_iff)
  then have "hasBeenInitialized s1"
    by (auto simp: bind_Return_iff emit_def)
  with s' show ?thesis by simp
qed

lemma initializeDocumentStore_Return:
  "initializeDocumentStore n c s = Return u s' \<Longrightarrow>
     hasBeenInitialized s' \<or> (isInitializing s \<and> s' = s)"
  by (cases n) (auto dest: initializeDocumentStore_body_Return)

lemma initializeDocumentStore_again:
  assumes "initializeDocumentStore n c s = Return u s'"
  shows "initializeDocumentStore k c s' = Return () s'"
proof -
  have "hasBeenInitialized s' \<or> isInitializing s'"
    using initializeDocumentStore_Return[OF assms] by auto
  then show ?thesis
    by (cases k) (auto simp: initializeDocumentStore_body_def)
qed

















section \<open>The schema lifecycle\<close>

subsection \<open>What the steps of a migration keep\<close>




































subsection \<open>The events of a migration\<close>

lemma bind_Return_eq: "act s = Return y s1 \<Longrightarrow> bind act f s = f y s1"
  by (simp add: bind_def)


lemma try_finally_Return_eq:
  "body s = Return x s1 \<Longrightarrow> fin s1 = Return u s2 \<Longrightarrow> try_finally body fin s = Return x s2"
  by (simp add: try_finally_def)





subsection \<open>The lock is released when a step throws\<close>

lemma create_existing:
  "meta s = Some r \<Longrightarrow>
   createDocumentStoreIfDoesNotExist c s = Return False (logged (KGet [JStr (ds_name c)]) s)"
  by (simp add: createDocumentStoreIfDoesNotExist_def store_transaction_def
        loadDocumentStoreRecord_def bind_def ret_def)

lemma lock_free:
  "meta s = Some r \<Longrightarrow> \<not> isLocked r \<Longrightarrow>
   lockDocumentStore (Suc n) c s =
     Return () (s\<lparr>kvlog := kvlog s @ [KGet [JStr (ds_name c)],
                                       KPutRecord [JStr (ds_name c)] (r\<lparr>isLocked := True\<rparr>)],
                 meta := Some (r\<lparr>isLocked := True\<rparr>)\<rparr>)"
  by (simp add: store_transaction_def loadDocumentStoreRecord_def saveDocumentStoreRecord_def
        bind_def ret_def logged_def Let_def)

lemma unlock_present:
  "meta s = Some r \<Longrightarrow>
   unlockDocumentStore c s =
     Return () (s\<lparr>kvlog := kvlog s @ [KGet [JStr (ds_name c)],
                                       KPutRecord [JStr (ds_name c)] (r\<lparr>isLocked := False\<rparr>)],
                 meta := Some (r\<lparr>isLocked := False\<rparr>)\<rparr>)"
  by (simp add: unlockDocumentStore_def loadDocumentStoreRecord_def saveDocumentStoreRecord_def
        bind_def logged_def Let_def)






subsection \<open>Repeated initialization\<close>

lemma foldM_unchanged:
  assumes "\<And>x s. x \<in> set xs \<Longrightarrow> f x a s = Return a s"
  shows "foldM f xs a s = Return a s"
  using assms by (induction xs) (simp_all add: ret_def bind_def)

lemma findIndex_Some:
  "findIndex P xs = Some i \<Longrightarrow> i < length xs \<and> P (xs ! i) \<and> (\<forall>j<i. \<not> P (xs ! j))"
proof (induction xs arbitrary: i)
  case Nil
  then show ?case by simp
next
  case (Cons x xs)
  show ?case
  proof (cases "P x")
    case True
    then show ?thesis using Cons.prems by auto
  next
    case False
    then obtain i' where i': "findIndex P xs = Some i'" "i = Suc i'"
      using Cons.prems by (auto split: option.splits)
    then show ?thesis
      using Cons.IH[OF i'(1)] False by (auto simp: less_Suc_eq_0_disj)
  qed
qed

lemma migrate_declared_in_sync:
  assumes "in_sync (ds_collections c) (rcollections r)" and "C \<in> set (ds_collections c)"
  shows "migrate_declared n init c C r s = Return r s"
proof -
  obtain i where i: "findIndex (\<lambda>e. pcname e = cname C) (rcollections r) = Some i"
    and live: "\<not> hasBeenRemoved (rcollections r ! i)"
    and same: "set (map pikeys (pcindexes (rcollections r ! i))) = set (map ikeys (cindexes C))"
    using assms
    by (auto simp: in_sync_def descriptor_matches_def list_all_iff split: option.splits)
  have added: "migrate_added_index n init c C i X r s' = Return r s'"
    if "X \<in> set (cindexes C)" for X s'
  proof -
    have "ikeys X \<in> set (map pikeys (pcindexes (rcollections r ! i)))"
      using that same by auto
    then have "List.find (\<lambda>existingIndex. pikeys existingIndex = ikeys X)
                 (pcindexes (rcollections r ! i)) \<noteq> None"
      by (auto simp: find_None_iff)
    then show ?thesis
      by (auto simp: migrate_added_index_def ret_def split: option.splits)
  qed
  have removed: "migrate_removed_index c C i ks r s' = Return r s'"
    if "ks \<in> set (map pikeys (pcindexes (rcollections r ! i)))" for ks s'
  proof -
    have "ks \<in> set (map ikeys (cindexes C))"
      using that same by simp
    then have "List.find (\<lambda>idx. ikeys idx = ks) (cindexes C) \<noteq> None"
      by (auto simp: find_None_iff)
    then show ?thesis
      by (auto simp: migrate_removed_index_def ret_def split: option.splits)
  qed
  have 1: "foldM (migrate_added_index n init c C i) (cindexes C) r s = Return r s"
    using added by (rule foldM_unchanged)
  have 2: "foldM (migrate_removed_index c C i) (map pikeys (pcindexes (rcollections r ! i))) r s
             = Return r s"
    using removed by (rule foldM_unchanged)
  show ?thesis
    using i live 1 2 by (simp add: migrate_declared_def bind_Return_eq Let_def)
qed

lemma migrate_existing_in_sync:
  assumes "in_sync (ds_collections c) (rcollections r)" and "j < length (rcollections r)"
  shows "migrate_existing c j r s = Return r s"
proof -
  have "hasBeenRemoved (rcollections r ! j) \<or>
        List.find (\<lambda>collection. cname collection = pcname (rcollections r ! j)) (ds_collections c)
          \<noteq> None"
    using assms by (auto simp: in_sync_def removed_or_declared_def list_all_length)
  then show ?thesis
    by (auto simp: migrate_existing_def Let_def ret_def split: option.splits)
qed

lemma migrateDocumentStore_in_sync:
  assumes m: "meta s = Some r" and sync: "in_sync (ds_collections c) (rcollections r)"
      and quiet: "\<not> migrationDidStartEventHasBeenEmitted s"
  shows "migrateDocumentStore n init c s =
           Return () (s\<lparr>kvlog := kvlog s @ [KGet [JStr (ds_name c)]]\<rparr>)"
proof -
  define s1 where "s1 = s\<lparr>kvlog := kvlog s @ [KGet [JStr (ds_name c)]]\<rparr>"
  have load: "loadDocumentStoreRecord c True s = Return (Some r) s1"
    using m by (simp add: loadDocumentStoreRecord_def s1_def logged_def)
  have 1: "foldM (migrate_declared n init c) (ds_collections c) r s1 = Return r s1"
    using migrate_declared_in_sync[OF sync] by (rule foldM_unchanged)
  have 2: "foldM (migrate_existing c) [0..<length (rcollections r)] r s1 = Return r s1"
    using migrate_existing_in_sync[OF sync] by (rule foldM_unchanged) simp
  have body: "bind (foldM (migrate_declared n init c) (ds_collections c) r) (\<lambda>record1.
              bind (foldM (migrate_existing c) [0..<length (rcollections record1)] record1)
                (\<lambda>record2. ret ())) s1 = Return () s1"
    using 1 2 by (simp add: bind_Return_eq ret_def)
  have stop: "emitMigrationDidStop s1 = Return () s1"
    using quiet by (simp add: emitMigrationDidStop_def s1_def)
  have "try_finally
             (bind (foldM (migrate_declared n init c) (ds_collections c) r) (\<lambda>record1.
              bind (foldM (migrate_existing c) [0..<length (rcollections record1)] record1)
                (\<lambda>record2. ret ())))
             emitMigrationDidStop s1 = Return () s1"
    using body stop by (rule try_finally_Return_eq)
  then show ?thesis
    using load unfolding migrateDocumentStore_def s1_def[symmetric]
    by (simp add: bind_Return_eq)
qed

lemma reopen_in_sync:
  assumes root: "\<not> insideTransaction c"
      and fresh: "\<not> hasBeenInitialized s" "\<not> isInitializing s"
      and quiet: "\<not> migrationDidStartEventHasBeenEmitted s"
      and m: "meta s = Some r" and free: "\<not> isLocked r" and current: "version r = 3"
      and sync: "in_sync (ds_collections c) (rcollections r)"
  shows "initializeDocumentStore (Suc n) c s =
           Return ()
             (s\<lparr>kvlog := kvlog s @ [KGet [JStr (ds_name c)], KGet [JStr (ds_name c)],
                                    KPutRecord [JStr (ds_name c)] (r\<lparr>isLocked := True\<rparr>),
                                    KGet [JStr (ds_name c)], KGet [JStr (ds_name c)],
                                    KGet [JStr (ds_name c)],
                                    KPutRecord [JStr (ds_name c)] r],
                events := events s @ [DidInitialize],
                hasBeenInitialized := True\<rparr>)"
proof -
  define k where "k = [JStr (ds_name c)]"
  define rl where "rl = r\<lparr>isLocked := True\<rparr>"
  define s0 where "s0 = s\<lparr>isInitializing := True\<rparr>"
  define sc where "sc = s0\<lparr>kvlog := kvlog s @ [KGet k]\<rparr>"
  define sl where "sl = s0\<lparr>kvlog := kvlog s @ [KGet k, KGet k, KPutRecord k rl], meta := Some rl\<rparr>"
  define su where "su = sl\<lparr>kvlog := kvlog sl @ [KGet k]\<rparr>"
  define sm where "sm = su\<lparr>kvlog := kvlog su @ [KGet k]\<rparr>"
  define sx where "sx = sm\<lparr>kvlog := kvlog sm @ [KGet k, KPutRecord k r], meta := Some r\<rparr>"
  have unl: "rl\<lparr>isLocked := False\<rparr> = r"
    using free by (simp add: rl_def)
  have create: "createDocumentStoreIfDoesNotExist c s0 = Return False sc"
    using m by (simp add: create_existing s0_def sc_def logged_def k_def)
  have lock: "lockDocumentStore (Suc n) c sc = Return () sl"
    using lock_free[of sc r n c] m free
    by (simp add: sc_def s0_def sl_def k_def rl_def)
  have up: "upgradeDocumentStore c sl = Return () su"
    using upgradeDocumentStore_cases[of sl rl c] current
    by (simp add: sl_def su_def rl_def k_def)
  have mig: "migrateDocumentStore (Suc n) (initializeDocumentStore n) c su = Return () sm"
    using migrateDocumentStore_in_sync[of su rl c "Suc n" "initializeDocumentStore n"] sync quiet
    by (simp add: su_def sl_def s0_def sm_def rl_def k_def)
  have steps: "bind (upgradeDocumentStore c) (\<lambda>u.
                  bind (verifyDocumentStore c) (\<lambda>u.
                  migrateDocumentStore (Suc n) (initializeDocumentStore n) c)) sl = Return () sm"
    using up mig by (simp add: bind_Return_eq verifyDocumentStore_def ret_def)
  have unlock: "unlockDocumentStore c sm = Return () sx"
    using unlock_present[of sm rl c] unl
    by (simp add: sm_def su_def sl_def sx_def k_def)
  have guarded: "try_finally
                   (bind (upgradeDocumentStore c) (\<lambda>u.
                    bind (verifyDocumentStore c) (\<lambda>u.
                    migrateDocumentStore (Suc n) (initializeDocumentStore n) c)))
                   (unlockDocumentStore c) sl = Return () sx"
    using steps unlock by (rule try_finally_Return_eq)
  have "initializeDocumentStore (Suc n) c s =
          Return () (sx\<lparr>hasBeenInitialized := True, events := events sx @ [DidInitialize],
                        isInitializing := False\<rparr>)"
    using root fresh create lock guarded
    by (simp add: initializeDocumentStore_body_def try_finally_def bind_Return_eq emit_def
          s0_def[symmetric])
  moreover have "sx\<lparr>hasBeenInitialized := True, events := events sx @ [DidInitialize],
                        isInitializing := False\<rparr>
               = s\<lparr>kvlog := kvlog s @ [KGet k, KGet k, KPutRecord k rl, KGet k, KGet k, KGet k,
                                    KPutRecord k r],
                events := events s @ [DidInitialize],
                hasBeenInitialized := True\<rparr>"
    using m fresh by (simp add: sx_def sm_def su_def sl_def s0_def)
  ultimately show ?thesis
    by (simp add: k_def rl_def)
qed

lemma collection_toJSON_simps:
  "pcname (collection_toJSON C) = cname C"
  "hasBeenRemoved (collection_toJSON C) = False"
  "pcindexes (collection_toJSON C) = map index_toJSON (cindexes C)"
  by (simp_all add: collection_toJSON_def)

lemma findIndex_first_of_name:
  assumes "distinct (map cname cs)" and "C \<in> set cs"
  shows "\<exists>i. findIndex (\<lambda>e. pcname e = cname C) (map collection_toJSON cs) = Some i
             \<and> i < length cs \<and> cs ! i = C"
  using assms
proof (induction cs)
  case Nil
  then show ?case by simp
next
  case (Cons D cs)
  show ?case
  proof (cases "cname D = cname C")
    case True
    then have "D = C"
      using Cons.prems by (auto simp: image_iff)
    then show ?thesis
      by (simp add: collection_toJSON_simps)
  next
    case False
    then obtain i where "findIndex (\<lambda>e. pcname e = cname C) (map collection_toJSON cs) = Some i"
      "i < length cs" "cs ! i = C"
      using Cons by auto
    then show ?thesis
      using False by (auto simp: collection_toJSON_simps)
  qed
qed

lemma created_in_sync:
  assumes "distinct (map cname cs)"
  shows "in_sync cs (map collection_toJSON cs)"
proof -
  have 1: "case findIndex (\<lambda>e. pcname e = cname C) (map collection_toJSON cs) of
             None \<Rightarrow> False
           | Some i \<Rightarrow>
               (\<not> hasBeenRemoved (map collection_toJSON cs ! i)) \<and>
               set (map pikeys (pcindexes (map collection_toJSON cs ! i)))
                 = set (map ikeys (cindexes C))"
    if C: "C \<in> set cs" for C
  proof -
    obtain i where "findIndex (\<lambda>e. pcname e = cname C) (map collection_toJSON cs) = Some i"
      "i < length cs" "cs ! i = C"
      using findIndex_first_of_name[OF assms C] by blast
    then show ?thesis
      by (simp add: collection_toJSON_simps index_toJSON_def comp_def)
  qed
  have 2: "hasBeenRemoved e \<or>
           List.find (\<lambda>collection. cname collection = pcname e) cs \<noteq> None"
    if "e \<in> set (map collection_toJSON cs)" for e
    using that by (auto simp: find_None_iff collection_toJSON_simps)
  show ?thesis
    unfolding in_sync_def descriptor_matches_def removed_or_declared_def list_all_iff
    using 1 2 by blast
qed

subsection \<open>A migration that returns leaves nothing for the next one\<close>

text \<open>
  What one step of each loop of \<open>migrateDocumentStore\<close> has done when it returns, and
  from there the descriptor that a migration leaves: in sync with the declarations,
  provided that no two of them share a name, which the constructor guarantees.
\<close>

lemma foldM_Return_invariant:
  assumes "foldM f xs a s = Return b s'" and "P a s"
      and "\<And>x a s b s'. x \<in> set xs \<Longrightarrow> P a s \<Longrightarrow> f x a s = Return b s' \<Longrightarrow> P b s'"
  shows "P b s'"
  using assms
proof (induction xs arbitrary: a s)
  case Nil
  then show ?case by (simp add: ret_def)
next
  case (Cons x xs)
  from Cons.prems(1) obtain a1 s1 where
    1: "f x a s = Return a1 s1" and 2: "foldM f xs a1 s1 = Return b s'"
    by (auto simp: bind_Return_iff)
  have "P a1 s1"
    using Cons.prems(3)[of x a s a1 s1] Cons.prems(2) 1 by simp
  then show ?case
  proof (rule Cons.IH[OF 2])
    fix y a0 s0 b0 s0'
    assume "y \<in> set xs" "P a0 s0" "f y a0 s0 = Return b0 s0'"
    then show "P b0 s0'"
      using Cons.prems(3)[of y a0 s0 b0 s0'] by simp
  qed
qed

lemma save_Return:
  "saveDocumentStoreRecord c r e s = Return u s' \<Longrightarrow> meta s' = Some r"
  by (auto simp: saveDocumentStoreRecord_def Let_def split: if_splits)

lemma drop_first_undeclared:
  assumes "findIndex (\<lambda>x. f x = k) xs = Some j"
      and "filter U (map f xs) = k # rest" and "U k"
  shows "filter U (map f (take j xs @ drop (Suc j) xs)) = rest
         \<and> filter (\<lambda>y. \<not> U y) (map f (take j xs @ drop (Suc j) xs))
             = filter (\<lambda>y. \<not> U y) (map f xs)"
  using assms
proof (induction xs arbitrary: j)
  case Nil
  then show ?case by simp
next
  case (Cons x xs)
  show ?case
  proof (cases "f x = k")
    case True
    then have "j = 0" using Cons.prems(1) by simp
    then show ?thesis using Cons.prems(2,3) True by simp
  next
    case False
    then obtain j' where j': "findIndex (\<lambda>x. f x = k) xs = Some j'" "j = Suc j'"
      using Cons.prems(1) by (auto split: option.splits)
    have nu: "\<not> U (f x)"
      using Cons.prems(2) False by (cases "U (f x)") auto
    then have "filter U (map f xs) = k # rest"
      using Cons.prems(2) by simp
    then show ?thesis
      using Cons.IH[OF j'(1) _ Cons.prems(3)] j'(2) nu by simp
  qed
qed

lemma migrate_added_index_Return:
  assumes "migrate_added_index n init c C i X r s = Return r' s'"
  shows "(r' = r \<and> s' = s \<and> ikeys X \<in> set (map pikeys (pcindexes (rcollections r ! i))))
       \<or> (r' = update_collection i (\<lambda>e. e\<lparr>pcindexes := pcindexes e @ [index_toJSON X]\<rparr>) r
           \<and> meta s' = Some r')"
proof (cases "List.find (\<lambda>existingIndex. pikeys existingIndex = ikeys X)
                (pcindexes (rcollections r ! i))")
  case None
  then show ?thesis
    using assms
    by (auto simp: migrate_added_index_def bind_Return_iff ret_def Let_def dest: save_Return)
next
  case (Some found)
  then have "List.find (\<lambda>existingIndex. pikeys existingIndex = ikeys X)
               (pcindexes (rcollections r ! i)) \<noteq> None"
    by simp
  then obtain x where "x \<in> set (pcindexes (rcollections r ! i))" "pikeys x = ikeys X"
    by (auto simp: find_None_iff)
  then have "ikeys X \<in> set (map pikeys (pcindexes (rcollections r ! i)))"
    by (metis image_eqI set_map)
  then show ?thesis
    using assms Some by (simp add: migrate_added_index_def ret_def)
qed

lemma added_loop:
  assumes "foldM (migrate_added_index n init c C i) Xs r s = Return r' s'"
      and "i < length (rcollections r)"
  shows "\<exists>L'. r' = r\<lparr>rcollections := (rcollections r)[i := (rcollections r ! i)\<lparr>pcindexes := L'\<rparr>]\<rparr>
            \<and> set (map pikeys L')
                = set (map pikeys (pcindexes (rcollections r ! i))) \<union> set (map ikeys Xs)
            \<and> ((r' = r \<and> s' = s) \<or> meta s' = Some r')"
  using assms
proof (induction Xs arbitrary: r s)
  case Nil
  then show ?case
    by (auto simp: ret_def intro!: exI[of _ "pcindexes (rcollections r ! i)"])
next
  case (Cons X Xs)
  from Cons.prems(1) obtain r1 s1 where
    1: "migrate_added_index n init c C i X r s = Return r1 s1"
    and 2: "foldM (migrate_added_index n init c C i) Xs r1 s1 = Return r' s'"
    by (auto simp: bind_Return_iff)
  define e where "e = rcollections r ! i"
  obtain L1 where r1: "r1 = r\<lparr>rcollections := (rcollections r)[i := e\<lparr>pcindexes := L1\<rparr>]\<rparr>"
    and k1: "set (map pikeys L1) = set (map pikeys (pcindexes e)) \<union> {ikeys X}"
    and m1: "(r1 = r \<and> s1 = s) \<or> meta s1 = Some r1"
  proof (cases "r1 = r \<and> s1 = s")
    case True
    then have "ikeys X \<in> set (map pikeys (pcindexes e)) \<or> meta s1 = Some r1"
      using migrate_added_index_Return[OF 1] by (auto simp: e_def)
    then show ?thesis
    proof
      assume "ikeys X \<in> set (map pikeys (pcindexes e))"
      then show ?thesis
        using that[of "pcindexes e"] True by (auto simp: e_def)
    next
      assume ms: "meta s1 = Some r1"
      have "r1 = update_collection i (\<lambda>e. e\<lparr>pcindexes := pcindexes e @ [index_toJSON X]\<rparr>) r
            \<or> ikeys X \<in> set (map pikeys (pcindexes e))"
        using migrate_added_index_Return[OF 1] by (auto simp: e_def)
      then show ?thesis
      proof
        assume "r1 = update_collection i (\<lambda>e. e\<lparr>pcindexes := pcindexes e @ [index_toJSON X]\<rparr>) r"
        then show ?thesis
          using that[of "pcindexes e @ [index_toJSON X]"] ms
          by (simp add: update_collection_def e_def index_toJSON_def)
      next
        assume "ikeys X \<in> set (map pikeys (pcindexes e))"
        then show ?thesis
          using that[of "pcindexes e"] True by (auto simp: e_def)
      qed
    qed
  next
    case False
    then have "r1 = update_collection i (\<lambda>e. e\<lparr>pcindexes := pcindexes e @ [index_toJSON X]\<rparr>) r"
      and "meta s1 = Some r1"
      using migrate_added_index_Return[OF 1] by auto
    then show ?thesis
      using that[of "pcindexes e @ [index_toJSON X]"]
      by (simp add: update_collection_def e_def index_toJSON_def)
  qed
  have len1: "i < length (rcollections r1)"
    using Cons.prems(2) by (simp add: r1)
  have e1: "rcollections r1 ! i = e\<lparr>pcindexes := L1\<rparr>"
    using Cons.prems(2) by (simp add: r1)
  obtain L' where r': "r' = r1\<lparr>rcollections := (rcollections r1)[i := (rcollections r1 ! i)\<lparr>pcindexes := L'\<rparr>]\<rparr>"
    and k': "set (map pikeys L') = set (map pikeys (pcindexes (rcollections r1 ! i))) \<union> set (map ikeys Xs)"
    and m': "(r' = r1 \<and> s' = s1) \<or> meta s' = Some r'"
    using Cons.IH[OF 2 len1] by blast
  have "r' = r\<lparr>rcollections := (rcollections r)[i := e\<lparr>pcindexes := L'\<rparr>]\<rparr>"
    by (simp add: r' e1) (simp add: r1)
  moreover have "set (map pikeys L') = set (map pikeys (pcindexes e)) \<union> set (map ikeys (X # Xs))"
    using k' k1 by (auto simp: e1)
  moreover have "(r' = r \<and> s' = s) \<or> meta s' = Some r'"
    using m1 m' by auto
  ultimately show ?case
    unfolding e_def by blast
qed

lemma migrate_removed_index_Return:
  assumes "migrate_removed_index c C i k r s = Return r' s'"
  shows "(r' = r \<and> s' = s \<and> k \<in> set (map ikeys (cindexes C)))
       \<or> (k \<notin> set (map ikeys (cindexes C))
           \<and> (\<exists>j. findIndex (\<lambda>idx. pikeys idx = k) (pcindexes (rcollections r ! i)) = Some j
                  \<and> r' = update_collection i
                           (\<lambda>e. e\<lparr>pcindexes := take j (pcindexes e) @ drop (Suc j) (pcindexes e)\<rparr>) r)
           \<and> meta s' = Some r')"
proof (cases "List.find (\<lambda>idx. ikeys idx = k) (cindexes C)")
  case None
  then have "k \<notin> set (map ikeys (cindexes C))"
    by (auto simp: find_None_iff)
  then show ?thesis
    using assms None
    by (auto simp: migrate_removed_index_def bind_Return_iff ret_def throw_def Let_def
        split: option.splits dest: save_Return)
next
  case (Some found)
  then have "List.find (\<lambda>idx. ikeys idx = k) (cindexes C) \<noteq> None"
    by simp
  then obtain x where "x \<in> set (cindexes C)" "ikeys x = k"
    by (auto simp: find_None_iff)
  then have "k \<in> set (map ikeys (cindexes C))"
    by (metis image_eqI set_map)
  then show ?thesis
    using assms Some by (simp add: migrate_removed_index_def ret_def)
qed

lemma removed_loop:
  assumes "foldM (migrate_removed_index c C i) ks r s = Return r' s'"
      and "i < length (rcollections r)"
      and "filter (\<lambda>k. k \<notin> set (map ikeys (cindexes C)))
             (map pikeys (pcindexes (rcollections r ! i)))
           = filter (\<lambda>k. k \<notin> set (map ikeys (cindexes C))) ks"
  shows "\<exists>L'. r' = r\<lparr>rcollections := (rcollections r)[i := (rcollections r ! i)\<lparr>pcindexes := L'\<rparr>]\<rparr>
            \<and> filter (\<lambda>k. k \<notin> set (map ikeys (cindexes C))) (map pikeys L') = []
            \<and> filter (\<lambda>k. \<not> k \<notin> set (map ikeys (cindexes C))) (map pikeys L')
                = filter (\<lambda>k. \<not> k \<notin> set (map ikeys (cindexes C)))
                    (map pikeys (pcindexes (rcollections r ! i)))
            \<and> ((r' = r \<and> s' = s) \<or> meta s' = Some r')"
  using assms
proof (induction ks arbitrary: r s)
  case Nil
  then show ?case
    by (auto simp: ret_def intro!: exI[of _ "pcindexes (rcollections r ! i)"])
next
  case (Cons k ks)
  define U where "U = (\<lambda>k. k \<notin> set (map ikeys (cindexes C)))"
  define e where "e = rcollections r ! i"
  from Cons.prems(1) obtain r1 s1 where
    1: "migrate_removed_index c C i k r s = Return r1 s1"
    and 2: "foldM (migrate_removed_index c C i) ks r1 s1 = Return r' s'"
    by (auto simp: bind_Return_iff)
  have inv: "filter U (map pikeys (pcindexes e)) = filter U (k # ks)"
    using Cons.prems(3) by (simp add: U_def e_def)
  obtain L1 where r1: "r1 = r\<lparr>rcollections := (rcollections r)[i := e\<lparr>pcindexes := L1\<rparr>]\<rparr>"
    and u1: "filter U (map pikeys L1) = filter U ks"
    and d1: "filter (\<lambda>k. \<not> U k) (map pikeys L1) = filter (\<lambda>k. \<not> U k) (map pikeys (pcindexes e))"
    and m1: "(r1 = r \<and> s1 = s) \<or> meta s1 = Some r1"
  proof (cases "U k")
    case False
    then have "r1 = r" "s1 = s"
      using migrate_removed_index_Return[OF 1] by (auto simp: U_def)
    then show ?thesis
      using that[of "pcindexes e"] inv False by (simp add: e_def)
  next
    case True
    then obtain j where j: "findIndex (\<lambda>idx. pikeys idx = k) (pcindexes e) = Some j"
      and r1: "r1 = update_collection i
                      (\<lambda>e. e\<lparr>pcindexes := take j (pcindexes e) @ drop (Suc j) (pcindexes e)\<rparr>) r"
      and ms: "meta s1 = Some r1"
      using migrate_removed_index_Return[OF 1] by (auto simp: U_def e_def)
    have hd: "filter U (map pikeys (pcindexes e)) = k # filter U ks"
      using inv True by simp
    have "filter U (map pikeys (take j (pcindexes e) @ drop (Suc j) (pcindexes e))) = filter U ks
         \<and> filter (\<lambda>y. \<not> U y) (map pikeys (take j (pcindexes e) @ drop (Suc j) (pcindexes e)))
             = filter (\<lambda>y. \<not> U y) (map pikeys (pcindexes e))"
      by (rule drop_first_undeclared
                 [where f = pikeys and k = k and xs = "pcindexes e" and j = j and U = U
                    and rest = "filter U ks", OF j hd True])
    then show ?thesis
      using that[of "take j (pcindexes e) @ drop (Suc j) (pcindexes e)"] r1 ms
      by (simp add: update_collection_def e_def)
  qed
  have len1: "i < length (rcollections r1)"
    using Cons.prems(2) by (simp add: r1)
  have e1: "rcollections r1 ! i = e\<lparr>pcindexes := L1\<rparr>"
    using Cons.prems(2) by (simp add: r1)
  have inv1: "filter (\<lambda>k. k \<notin> set (map ikeys (cindexes C)))
             (map pikeys (pcindexes (rcollections r1 ! i)))
           = filter (\<lambda>k. k \<notin> set (map ikeys (cindexes C))) ks"
    using u1 by (simp add: e1 U_def)
  obtain L' where r': "r' = r1\<lparr>rcollections := (rcollections r1)[i := (rcollections r1 ! i)\<lparr>pcindexes := L'\<rparr>]\<rparr>"
    and u': "filter U (map pikeys L') = []"
    and d': "filter (\<lambda>k. \<not> U k) (map pikeys L')
               = filter (\<lambda>k. \<not> U k) (map pikeys (pcindexes (rcollections r1 ! i)))"
    and m': "(r' = r1 \<and> s' = s1) \<or> meta s' = Some r'"
    using Cons.IH[OF 2 len1 inv1] unfolding U_def by blast
  have "r' = r\<lparr>rcollections := (rcollections r)[i := e\<lparr>pcindexes := L'\<rparr>]\<rparr>"
    by (simp add: r' e1) (simp add: r1)
  moreover have "filter (\<lambda>k. \<not> U k) (map pikeys L') = filter (\<lambda>k. \<not> U k) (map pikeys (pcindexes e))"
    using d' d1 by (simp add: e1)
  moreover have "(r' = r \<and> s' = s) \<or> meta s' = Some r'"
    using m1 m' by auto
  ultimately show ?case
    using u' unfolding e_def U_def by blast
qed

lemma findIndex_None_iff: "findIndex P xs = None \<longleftrightarrow> (\<forall>x\<in>set xs. \<not> P x)"
  by (induction xs) (auto split: option.splits)

lemma findIndex_map_eq:
  "map P xs = map P ys \<Longrightarrow> findIndex P xs = findIndex P ys"
proof (induction xs arbitrary: ys)
  case Nil
  then show ?case by simp
next
  case (Cons x xs)
  then obtain y ys' where "ys = y # ys'" "P x = P y" "map P xs = map P ys'"
    by (cases ys) auto
  then show ?case using Cons.IH[of ys'] by simp
qed

lemma findIndex_append_found:
  "findIndex P xs = Some i \<Longrightarrow> findIndex P (xs @ ys) = Some i"
  by (induction xs arbitrary: i) (auto split: option.splits if_splits)

lemma findIndex_append_last:
  "findIndex P xs = None \<Longrightarrow> P x \<Longrightarrow> findIndex P (xs @ [x]) = Some (length xs)"
  by (induction xs) (auto split: option.splits if_splits)

text \<open>The shape of the descriptor after the migration of one declared collection.\<close>

lemma migrate_declared_Return:
  assumes "migrate_declared n init c C r s = Return r' s'"
  shows "((findIndex (\<lambda>e. pcname e = cname C) (rcollections r) = None
           \<and> rcollections r' = rcollections r @ [collection_toJSON C])
          \<or> (\<exists>i L'. findIndex (\<lambda>e. pcname e = cname C) (rcollections r) = Some i
                \<and> \<not> hasBeenRemoved (rcollections r ! i)
                \<and> rcollections r' = (rcollections r)[i := (rcollections r ! i)\<lparr>pcindexes := L'\<rparr>]
                \<and> set (map pikeys L') = set (map ikeys (cindexes C))))
         \<and> ((r' = r \<and> s' = s) \<or> meta s' = Some r')"
proof (cases "findIndex (\<lambda>e. pcname e = cname C) (rcollections r)")
  case None
  then show ?thesis
    using assms
    by (auto simp: migrate_declared_def bind_Return_iff emitMigrationDidStart_def ret_def Let_def
        dest: save_Return split: if_splits)
next
  case (Some i)
  then have len: "i < length (rcollections r)"
    using findIndex_Some by blast
  have live: "\<not> hasBeenRemoved (rcollections r ! i)"
    using assms Some by (auto simp: migrate_declared_def throw_def split: if_splits)
  obtain r1 s1 where
    1: "foldM (migrate_added_index n init c C i) (cindexes C) r s = Return r1 s1"
    and 2: "foldM (migrate_removed_index c C i) (map pikeys (pcindexes (rcollections r1 ! i))) r1 s1
              = Return r' s'"
    using assms Some live by (auto simp: migrate_declared_def bind_Return_iff Let_def)
  define e where "e = rcollections r ! i"
  obtain L1 where r1: "r1 = r\<lparr>rcollections := (rcollections r)[i := e\<lparr>pcindexes := L1\<rparr>]\<rparr>"
    and k1: "set (map pikeys L1) = set (map pikeys (pcindexes e)) \<union> set (map ikeys (cindexes C))"
    and m1: "(r1 = r \<and> s1 = s) \<or> meta s1 = Some r1"
    using added_loop[OF 1 len] unfolding e_def by blast
  have len1: "i < length (rcollections r1)"
    using len by (simp add: r1)
  have e1: "rcollections r1 ! i = e\<lparr>pcindexes := L1\<rparr>"
    using len by (simp add: r1)
  obtain L' where r': "r' = r1\<lparr>rcollections := (rcollections r1)[i := (rcollections r1 ! i)\<lparr>pcindexes := L'\<rparr>]\<rparr>"
    and u': "filter (\<lambda>k. k \<notin> set (map ikeys (cindexes C))) (map pikeys L') = []"
    and d': "filter (\<lambda>k. \<not> k \<notin> set (map ikeys (cindexes C))) (map pikeys L')
                = filter (\<lambda>k. \<not> k \<notin> set (map ikeys (cindexes C)))
                    (map pikeys (pcindexes (rcollections r1 ! i)))"
    and m': "(r' = r1 \<and> s' = s1) \<or> meta s' = Some r'"
    using removed_loop[OF 2 len1] by blast
  have sub: "set (map pikeys L') \<subseteq> set (map ikeys (cindexes C))"
    using u' by (auto simp: filter_empty_conv)
  have "set (filter (\<lambda>k. \<not> k \<notin> set (map ikeys (cindexes C))) (map pikeys L'))
          = set (filter (\<lambda>k. \<not> k \<notin> set (map ikeys (cindexes C))) (map pikeys L1))"
    using d' by (simp add: e1)
  then have sup: "set (map ikeys (cindexes C)) \<subseteq> set (map pikeys L')"
    using k1 by auto
  have "rcollections r' = (rcollections r)[i := e\<lparr>pcindexes := L'\<rparr>]"
    by (simp add: r' e1) (simp add: r1)
  moreover have "(r' = r \<and> s' = s) \<or> meta s' = Some r'"
    using m1 m' by auto
  ultimately show ?thesis
    using Some live sub sup unfolding e_def by blast
qed

lemma migrate_declared_matches:
  assumes "migrate_declared n init c C r s = Return r' s'"
  shows "descriptor_matches C (rcollections r')"
proof -
  consider (new) "findIndex (\<lambda>e. pcname e = cname C) (rcollections r) = None"
      "rcollections r' = rcollections r @ [collection_toJSON C]"
    | (old) i L' where "findIndex (\<lambda>e. pcname e = cname C) (rcollections r) = Some i"
        "\<not> hasBeenRemoved (rcollections r ! i)"
        "rcollections r' = (rcollections r)[i := (rcollections r ! i)\<lparr>pcindexes := L'\<rparr>]"
        "set (map pikeys L') = set (map ikeys (cindexes C))"
    using migrate_declared_Return[OF assms] by (elim conjE disjE exE) auto
  then show ?thesis
  proof cases
    case new
    have "findIndex (\<lambda>e. pcname e = cname C) (rcollections r @ [collection_toJSON C])
            = Some (length (rcollections r))"
      using new(1) by (rule findIndex_append_last) (simp add: collection_toJSON_simps)
    then show ?thesis
      by (simp add: descriptor_matches_def new(2) collection_toJSON_simps index_toJSON_def comp_def)
  next
    case old
    have len: "i < length (rcollections r)"
      using old(1) findIndex_Some by blast
    have "map (\<lambda>e. pcname e = cname C) (rcollections r') = map (\<lambda>e. pcname e = cname C) (rcollections r)"
      by (simp add: old(3) map_update) (simp add: list_update_same_conv len)
    then have "findIndex (\<lambda>e. pcname e = cname C) (rcollections r') = Some i"
      using old(1) findIndex_map_eq by metis
    then show ?thesis
      using old(2,4) len by (simp add: descriptor_matches_def old(3))
  qed
qed

lemma migrate_declared_keeps_others:
  assumes "migrate_declared n init c C r s = Return r' s'"
      and "cname D \<noteq> cname C" and "descriptor_matches D (rcollections r)"
  shows "descriptor_matches D (rcollections r')"
proof -
  obtain j where j: "findIndex (\<lambda>e. pcname e = cname D) (rcollections r) = Some j"
    and ok: "\<not> hasBeenRemoved (rcollections r ! j)"
      "set (map pikeys (pcindexes (rcollections r ! j))) = set (map ikeys (cindexes D))"
    using assms(3) by (auto simp: descriptor_matches_def split: option.splits)
  have jl: "j < length (rcollections r)" and jn: "pcname (rcollections r ! j) = cname D"
    using findIndex_Some[OF j] by auto
  consider (new) "rcollections r' = rcollections r @ [collection_toJSON C]"
    | (old) i L' where "findIndex (\<lambda>e. pcname e = cname C) (rcollections r) = Some i"
        "rcollections r' = (rcollections r)[i := (rcollections r ! i)\<lparr>pcindexes := L'\<rparr>]"
    using migrate_declared_Return[OF assms(1)] by (elim conjE disjE exE) auto
  then show ?thesis
  proof cases
    case new
    have "findIndex (\<lambda>e. pcname e = cname D) (rcollections r') = Some j"
      using j by (simp add: new findIndex_append_found)
    then show ?thesis
      using ok jl by (simp add: descriptor_matches_def new nth_append)
  next
    case old
    have il: "i < length (rcollections r)" and "pcname (rcollections r ! i) = cname C"
      using findIndex_Some[OF old(1)] by auto
    then have ne: "i \<noteq> j"
      using jn assms(2) by auto
    have "map (\<lambda>e. pcname e = cname D) (rcollections r') = map (\<lambda>e. pcname e = cname D) (rcollections r)"
      by (simp add: old(2) map_update) (simp add: list_update_same_conv il)
    then have "findIndex (\<lambda>e. pcname e = cname D) (rcollections r') = Some j"
      using j findIndex_map_eq by metis
    then show ?thesis
      using ok ne by (simp add: descriptor_matches_def old(2))
  qed
qed

lemma declared_loop:
  assumes "foldM (migrate_declared n init c) Cs r s = Return r' s'"
      and "distinct (map cname Cs)"
  shows "(\<forall>C\<in>set Cs. descriptor_matches C (rcollections r'))
         \<and> ((r' = r \<and> s' = s) \<or> meta s' = Some r')"
  using assms
proof (induction Cs arbitrary: r s)
  case Nil
  then show ?case by (simp add: ret_def)
next
  case (Cons C Cs)
  from Cons.prems(1) obtain r1 s1 where
    1: "migrate_declared n init c C r s = Return r1 s1"
    and 2: "foldM (migrate_declared n init c) Cs r1 s1 = Return r' s'"
    by (auto simp: bind_Return_iff)
  have rest: "\<forall>D\<in>set Cs. descriptor_matches D (rcollections r')"
    and m': "(r' = r1 \<and> s' = s1) \<or> meta s' = Some r'"
    using Cons.IH[OF 2] Cons.prems(2) by auto
  have "descriptor_matches C (rcollections r1)"
    using 1 by (rule migrate_declared_matches)
  then have "descriptor_matches C (rcollections r')"
  proof (rule foldM_Return_invariant[OF 2, where P = "\<lambda>a s. descriptor_matches C (rcollections a)"])
    fix D a s0 b s0'
    assume D: "D \<in> set Cs" and a: "descriptor_matches C (rcollections a)"
      and step: "migrate_declared n init c D a s0 = Return b s0'"
    have "cname C \<noteq> cname D"
      using D Cons.prems(2) by auto
    then show "descriptor_matches C (rcollections b)"
      using migrate_declared_keeps_others[OF step _ a] by simp
  qed
  moreover have "(r' = r \<and> s' = s) \<or> meta s' = Some r'"
    using m' migrate_declared_Return[OF 1] by auto
  ultimately show ?case
    using rest by simp
qed

lemma migrate_existing_Return:
  assumes "migrate_existing c j r s = Return r' s'"
  shows "(r' = r \<and> s' = s \<and> removed_or_declared (ds_collections c) (rcollections r ! j))
       \<or> (\<not> removed_or_declared (ds_collections c) (rcollections r ! j)
           \<and> r' = update_collection j (\<lambda>e. e\<lparr>pcindexes := [], hasBeenRemoved := True\<rparr>) r
           \<and> meta s' = Some r')"
proof (cases "removed_or_declared (ds_collections c) (rcollections r ! j)")
  case True
  then show ?thesis
    using assms
    by (auto simp: migrate_existing_def removed_or_declared_def Let_def ret_def
        split: option.splits if_splits)
next
  case False
  then show ?thesis
    using assms
    by (auto simp: migrate_existing_def removed_or_declared_def Let_def ret_def bind_Return_iff
        dest: save_Return split: option.splits if_splits)
qed

lemma tombstone_keeps_matches:
  assumes "descriptor_matches C pcs" and "C \<in> set decls"
      and "\<not> removed_or_declared decls (pcs ! j)"
  shows "descriptor_matches C (pcs[j := (pcs ! j)\<lparr>pcindexes := [], hasBeenRemoved := True\<rparr>])"
proof (cases "j < length pcs")
  case False
  then have "pcs[j := (pcs ! j)\<lparr>pcindexes := [], hasBeenRemoved := True\<rparr>] = pcs"
    by (intro list_update_beyond) simp
  then show ?thesis using assms(1) by simp
next
  case True
  obtain i where i: "findIndex (\<lambda>e. pcname e = cname C) pcs = Some i"
    and ok: "\<not> hasBeenRemoved (pcs ! i)"
      "set (map pikeys (pcindexes (pcs ! i))) = set (map ikeys (cindexes C))"
    using assms(1) by (auto simp: descriptor_matches_def split: option.splits)
  have "pcname (pcs ! i) = cname C"
    using findIndex_Some[OF i] by simp
  moreover have "cname C \<noteq> pcname (pcs ! j)"
    using assms(2,3) by (auto simp: removed_or_declared_def find_None_iff)
  ultimately have ne: "i \<noteq> j" by auto
  have "map (\<lambda>e. pcname e = cname C) (pcs[j := (pcs ! j)\<lparr>pcindexes := [], hasBeenRemoved := True\<rparr>])
          = map (\<lambda>e. pcname e = cname C) pcs"
    by (simp add: map_update) (simp add: list_update_same_conv True)
  then have "findIndex (\<lambda>e. pcname e = cname C)
               (pcs[j := (pcs ! j)\<lparr>pcindexes := [], hasBeenRemoved := True\<rparr>]) = Some i"
    using i findIndex_map_eq by metis
  then show ?thesis
    using ok ne by (simp add: descriptor_matches_def)
qed

lemma existing_loop:
  assumes "foldM (migrate_existing c) js r s = Return r' s'"
  shows "length (rcollections r') = length (rcollections r)
         \<and> (\<forall>p. removed_or_declared (ds_collections c) (rcollections r ! p) \<longrightarrow>
                 removed_or_declared (ds_collections c) (rcollections r' ! p))
         \<and> (\<forall>j\<in>set js. j < length (rcollections r) \<longrightarrow>
                 removed_or_declared (ds_collections c) (rcollections r' ! j))
         \<and> (\<forall>C\<in>set (ds_collections c). descriptor_matches C (rcollections r) \<longrightarrow>
                 descriptor_matches C (rcollections r'))
         \<and> ((r' = r \<and> s' = s) \<or> meta s' = Some r')"
  using assms
proof (induction js arbitrary: r s)
  case Nil
  then show ?case by (simp add: ret_def)
next
  case (Cons j js)
  from Cons.prems obtain r1 s1 where
    1: "migrate_existing c j r s = Return r1 s1"
    and 2: "foldM (migrate_existing c) js r1 s1 = Return r' s'"
    by (auto simp: bind_Return_iff)
  note IH = Cons.IH[OF 2]
  have step: "length (rcollections r1) = length (rcollections r)
         \<and> (\<forall>p. removed_or_declared (ds_collections c) (rcollections r ! p) \<longrightarrow>
                 removed_or_declared (ds_collections c) (rcollections r1 ! p))
         \<and> (j < length (rcollections r) \<longrightarrow>
                 removed_or_declared (ds_collections c) (rcollections r1 ! j))
         \<and> (\<forall>C\<in>set (ds_collections c). descriptor_matches C (rcollections r) \<longrightarrow>
                 descriptor_matches C (rcollections r1))
         \<and> ((r1 = r \<and> s1 = s) \<or> meta s1 = Some r1)"
  proof (cases "r1 = r \<and> s1 = s \<and> removed_or_declared (ds_collections c) (rcollections r ! j)")
    case True
    then show ?thesis by simp
  next
    case False
    then have nd: "\<not> removed_or_declared (ds_collections c) (rcollections r ! j)"
      and r1: "r1 = update_collection j (\<lambda>e. e\<lparr>pcindexes := [], hasBeenRemoved := True\<rparr>) r"
      and ms: "meta s1 = Some r1"
      using migrate_existing_Return[OF 1] by auto
    have pcs: "rcollections r1
                 = (rcollections r)[j := (rcollections r ! j)\<lparr>pcindexes := [], hasBeenRemoved := True\<rparr>]"
      by (simp add: r1 update_collection_def)
    have a: "\<forall>p. removed_or_declared (ds_collections c) (rcollections r ! p) \<longrightarrow>
                 removed_or_declared (ds_collections c) (rcollections r1 ! p)"
    proof (intro allI impI)
      fix p
      assume p: "removed_or_declared (ds_collections c) (rcollections r ! p)"
      then have "p \<noteq> j" using nd by auto
      then show "removed_or_declared (ds_collections c) (rcollections r1 ! p)"
        using p by (simp add: pcs)
    qed
    have b: "j < length (rcollections r) \<longrightarrow>
                 removed_or_declared (ds_collections c) (rcollections r1 ! j)"
      by (simp add: pcs removed_or_declared_def)
    have d: "\<forall>C\<in>set (ds_collections c). descriptor_matches C (rcollections r) \<longrightarrow>
                 descriptor_matches C (rcollections r1)"
      unfolding pcs using tombstone_keeps_matches[OF _ _ nd] by blast
    show ?thesis
      using a b d ms by (simp add: pcs)
  qed
  show ?case
    using step IH by (auto simp del: foldM.simps)
qed

lemma migrateDocumentStore_reaches_sync:
  assumes run: "migrateDocumentStore n init c s = Return u s'"
      and d: "distinct (map cname (ds_collections c))"
  shows "\<exists>r'. meta s' = Some r' \<and> in_sync (ds_collections c) (rcollections r')
              \<and> \<not> migrationDidStartEventHasBeenEmitted s'"
proof -
  from run obtain ro s1 where load: "loadDocumentStoreRecord c True s = Return ro s1"
    and rest: "(case ro of None \<Rightarrow> throw TypeError
                | Some r \<Rightarrow>
                    try_finally
                      (bind (foldM (migrate_declared n init c) (ds_collections c) r) (\<lambda>record1.
                       bind (foldM (migrate_existing c) [0..<length (rcollections record1)] record1)
                         (\<lambda>record2. ret ())))
                      emitMigrationDidStop) s1 = Return u s'"
    unfolding migrateDocumentStore_def bind_Return_iff by blast
  from rest obtain r where ro: "ro = Some r"
    by (cases ro) (simp_all add: throw_def)
  have m1: "meta s1 = Some r"
    using load unfolding ro
    by (auto simp: loadDocumentStoreRecord_def logged_def split: option.splits)
  from rest obtain sb where
    body: "bind (foldM (migrate_declared n init c) (ds_collections c) r) (\<lambda>record1.
           bind (foldM (migrate_existing c) [0..<length (rcollections record1)] record1)
             (\<lambda>record2. ret ())) s1 = Return u sb"
    and stop: "emitMigrationDidStop sb = Return () s'"
    unfolding ro by (auto simp: try_finally_Return_iff)
  from body obtain r1 sa r2 where
    1: "foldM (migrate_declared n init c) (ds_collections c) r s1 = Return r1 sa"
    and 2: "foldM (migrate_existing c) [0..<length (rcollections r1)] r1 sa = Return r2 sb"
    by (auto simp: bind_Return_iff ret_def)
  note D = declared_loop[OF 1 d]
  note E = existing_loop[OF 2]
  have ma: "meta sa = Some r1"
    using D m1 by auto
  have mb: "meta sb = Some r2"
    using E ma by auto
  have ms: "meta s' = Some r2" and quiet: "\<not> migrationDidStartEventHasBeenEmitted s'"
    using stop mb by (auto simp: emitMigrationDidStop_def split: if_splits)
  have a: "list_all (\<lambda>collection. descriptor_matches collection (rcollections r2)) (ds_collections c)"
    using D E by (simp add: list_all_iff)
  have "\<forall>p < length (rcollections r2). removed_or_declared (ds_collections c) (rcollections r2 ! p)"
    using E by simp
  then have b: "list_all (removed_or_declared (ds_collections c)) (rcollections r2)"
    by (simp add: list_all_length)
  show ?thesis
    using ms quiet a b by (simp add: in_sync_def)
qed

lemma migrateDocumentStore_twice:
  assumes run: "migrateDocumentStore n init c s = Return u s'"
      and d: "distinct (map cname (ds_collections c))"
  shows "migrateDocumentStore n' init' c s' =
           Return () (s'\<lparr>kvlog := kvlog s' @ [KGet [JStr (ds_name c)]]\<rparr>)"
proof -
  from migrateDocumentStore_reaches_sync[OF run d] obtain r' where
    "meta s' = Some r'" "in_sync (ds_collections c) (rcollections r')"
    "\<not> migrationDidStartEventHasBeenEmitted s'"
    by blast
  then show ?thesis
    by (rule migrateDocumentStore_in_sync)
qed

lemma addCollection_Inr:
  assumes "addCollection nm acc collection = Inr acc'"
  shows "acc' = acc @ [collection] \<and> cname collection \<notin> set (map cname acc)"
  using assms
  by (auto simp: addCollection_def getCollection_def find_None_iff
      split: option.splits sum.splits if_splits)

lemma addCollections_distinct:
  assumes "addCollections nm acc cs = Inr cs'" and "distinct (map cname acc)"
  shows "distinct (map cname cs')"
  using assms
proof (induction cs arbitrary: acc)
  case Nil
  then show ?case by simp
next
  case (Cons collection rest)
  from Cons.prems(1) obtain acc' where
    1: "addCollection nm acc collection = Inr acc'" and 2: "addCollections nm acc' rest = Inr cs'"
    by (auto split: sum.splits)
  have "distinct (map cname acc')"
    using addCollection_Inr[OF 1] Cons.prems(2) by auto
  then show ?case
    using Cons.IH[OF 2] by simp
qed

lemma DocumentStore_distinct:
  assumes "DocumentStore nm url cs ident = Inr c"
  shows "distinct (map cname (ds_collections c))"
proof -
  from assms obtain cs' where "addCollections nm [] cs = Inr cs'" "ds_collections c = cs'"
    by (auto simp: DocumentStore_def split: if_splits sum.splits)
  then show ?thesis
    using addCollections_distinct[of nm "[]" cs cs'] by simp
qed

text \<open>
  C5, as the code has it. A second \<open>initializeDocumentStore\<close> in the same process does
  nothing at all. A process opening a store that exists, is not locked, has the
  current version and a descriptor in sync with its declarations writes the descriptor
  twice, to take the lock and to release it, leaves it as it was and emits
  \<open>didInitialize\<close> only. A migration over a descriptor in sync with the declarations
  reads the descriptor and writes nothing; the descriptor written at creation is in
  sync with the declarations it was created from. And a migration that follows one
  that has returned, with the same declarations, reads the descriptor and writes
  nothing, whatever the first one had to do and whatever fuel either is given: the
  declarations of a store have distinct names, as the constructor refuses a duplicate.
\<close>

theorem initialization_repeated:
  "(initializeDocumentStore n c s = Return u s' \<longrightarrow>
      initializeDocumentStore k c s' = Return () s')
   \<and> (\<not> insideTransaction c \<and> \<not> hasBeenInitialized s \<and> \<not> isInitializing s
       \<and> \<not> migrationDidStartEventHasBeenEmitted s
       \<and> meta s = Some r \<and> \<not> isLocked r \<and> version r = 3
       \<and> in_sync (ds_collections c) (rcollections r)
       \<longrightarrow> initializeDocumentStore (Suc n) c s =
             Return ()
               (s\<lparr>kvlog := kvlog s @ [KGet [JStr (ds_name c)], KGet [JStr (ds_name c)],
                                      KPutRecord [JStr (ds_name c)] (r\<lparr>isLocked := True\<rparr>),
                                      KGet [JStr (ds_name c)], KGet [JStr (ds_name c)],
                                      KGet [JStr (ds_name c)],
                                      KPutRecord [JStr (ds_name c)] r],
                  events := events s @ [DidInitialize],
                  hasBeenInitialized := True\<rparr>))
   \<and> (meta s = Some r \<and> in_sync (ds_collections c) (rcollections r)
       \<and> \<not> migrationDidStartEventHasBeenEmitted s
       \<longrightarrow> migrateDocumentStore n init c s =
             Return () (s\<lparr>kvlog := kvlog s @ [KGet [JStr (ds_name c)]]\<rparr>))
   \<and> (distinct (map cname cs) \<longrightarrow> in_sync cs (map collection_toJSON cs))
   \<and> (migrateDocumentStore n init c t = Return u t' \<and> distinct (map cname (ds_collections c))
       \<longrightarrow> migrateDocumentStore k init' c t' =
             Return () (t'\<lparr>kvlog := kvlog t' @ [KGet [JStr (ds_name c)]]\<rparr>))
   \<and> (DocumentStore nm url cs ident = Inr c \<longrightarrow> distinct (map cname (ds_collections c)))"
  using initializeDocumentStore_again[of n c s u s' k]
        reopen_in_sync[of c s r n]
        migrateDocumentStore_in_sync[of s r c n init]
        created_in_sync[of cs]
        migrateDocumentStore_twice[of n init c t u t' k init']
        DocumentStore_distinct[of nm url cs ident c]
  by blast

theorem initialization_repeated_witness:
  "initializeDocumentStore 1 ex_store ex_fresh = Return () ex_created
   \<and> initializeDocumentStore 1 ex_store ex_created = Return () ex_created
   \<and> \<not> insideTransaction ex_store
   \<and> meta ex_reopened = Some ex_descriptor \<and> \<not> isLocked ex_descriptor
   \<and> version ex_descriptor = 3
   \<and> in_sync (ds_collections ex_store) (rcollections ex_descriptor)
   \<and> initializeDocumentStore (Suc 0) ex_store ex_reopened =
       Return ()
         (ex_reopened\<lparr>kvlog := [KGet [JStr ''S''], KGet [JStr ''S''],
                               KPutRecord [JStr ''S''] (ex_descriptor\<lparr>isLocked := True\<rparr>),
                               KGet [JStr ''S''], KGet [JStr ''S''], KGet [JStr ''S''],
                               KPutRecord [JStr ''S''] ex_descriptor],
                      events := [DidInitialize],
                      hasBeenInitialized := True\<rparr>)
   \<and> migrateDocumentStore 1 (initializeDocumentStore 0) ex_store ex_reopened =
       Return () (ex_reopened\<lparr>kvlog := [KGet [JStr ''S'']]\<rparr>)
   \<and> distinct (map cname [ex_People])
   \<and> in_sync [ex_People] (map collection_toJSON [ex_People])
   \<and> DocumentStore ''S'' ''url'' [ex_People] 0 = Inr ex_store
   \<and> distinct (map cname (ds_collections ex_store))
   \<and> migrateDocumentStore 2 (initializeDocumentStore 0) ex_store ex_unindexed =
       Return () ex_indexed
   \<and> migrateDocumentStore 2 (initializeDocumentStore 0) ex_store ex_indexed =
       Return () (ex_indexed\<lparr>kvlog := kvlog ex_indexed @ [KGet [JStr ''S'']]\<rparr>)"
proof -
  have first: "initializeDocumentStore 1 ex_store ex_fresh = Return () ex_created"
    by code_simp
  have built: "DocumentStore ''S'' ''url'' [ex_People] 0 = Inr ex_store"
    by (simp add: DocumentStore_def addCollection_def getCollection_def ex_store_def)
  have adds: "migrateDocumentStore 2 (initializeDocumentStore 0) ex_store ex_unindexed =
       Return () ex_indexed"
    by code_simp
  note again = initialization_repeated
               [where n = 2 and init = "initializeDocumentStore 0" and c = ex_store
                  and t = ex_unindexed and u = "()" and t' = ex_indexed and k = 2
                  and init' = "initializeDocumentStore 0"
                  and nm = "''S''" and url = "''url''" and cs = "[ex_People]" and ident = 0]
  have names: "distinct (map cname (ds_collections ex_store))"
    using again built by blast
  have f: "migrateDocumentStore 2 (initializeDocumentStore 0) ex_store ex_indexed =
       Return () (ex_indexed\<lparr>kvlog := kvlog ex_indexed @ [KGet [JStr ''S'']]\<rparr>)"
    using again adds names by (simp add: ex_store_def)
  have root: "\<not> insideTransaction ex_store"
    by (simp add: insideTransaction_def ex_store_def)
  have st: "\<not> hasBeenInitialized ex_reopened" "\<not> isInitializing ex_reopened"
           "\<not> migrationDidStartEventHasBeenEmitted ex_reopened"
           "meta ex_reopened = Some ex_descriptor" "kvlog ex_reopened = []"
           "events ex_reopened = []"
    by (simp_all add: ex_reopened_def ex_fresh_def)
  have d: "\<not> isLocked ex_descriptor" "version ex_descriptor = 3"
    by (simp_all add: ex_descriptor_def)
  have sync: "in_sync (ds_collections ex_store) (rcollections ex_descriptor)"
    by (simp add: in_sync_def descriptor_matches_def removed_or_declared_def ex_store_def
          ex_descriptor_def ex_People_def ex_index_lastName_def)
  have dist: "distinct (map cname [ex_People])"
    by simp
  note inst = initialization_repeated
               [where c = ex_store and s = ex_reopened and r = ex_descriptor and n = 0
                  and init = "initializeDocumentStore 0" and cs = "[ex_People]"]
  have b: "initializeDocumentStore (Suc 0) ex_store ex_reopened =
       Return ()
         (ex_reopened\<lparr>kvlog := [KGet [JStr ''S''], KGet [JStr ''S''],
                               KPutRecord [JStr ''S''] (ex_descriptor\<lparr>isLocked := True\<rparr>),
                               KGet [JStr ''S''], KGet [JStr ''S''], KGet [JStr ''S''],
                               KPutRecord [JStr ''S''] ex_descriptor],
                      events := [DidInitialize],
                      hasBeenInitialized := True\<rparr>)"
    using inst root st d sync by (simp add: ex_store_def)
  have c: "migrateDocumentStore 0 (initializeDocumentStore 0) ex_store ex_reopened =
       Return () (ex_reopened\<lparr>kvlog := [KGet [JStr ''S'']]\<rparr>)"
    using inst st sync by (simp add: ex_store_def)
  have c1: "migrateDocumentStore 1 (initializeDocumentStore 0) ex_store ex_reopened =
       Return () (ex_reopened\<lparr>kvlog := [KGet [JStr ''S'']]\<rparr>)"
    using initialization_repeated
               [where c = ex_store and s = ex_reopened and r = ex_descriptor and n = 1
                  and init = "initializeDocumentStore 0"]
          st sync by (simp add: ex_store_def)
  have e: "in_sync [ex_People] (map collection_toJSON [ex_People])"
    using inst dist by blast
  have a: "initializeDocumentStore 1 ex_store ex_created = Return () ex_created"
    using initialization_repeated
            [where n = 1 and c = ex_store and s = ex_fresh and u = "()" and s' = ex_created
               and k = 1]
          first by blast
  show ?thesis
    using first a root st(4) d sync b c1 dist e built names adds f by simp
qed

text \<open>
  The claim as stated fails for the second process: opening the store that the first
  process created writes the descriptor twice, for the lock and for its release.
\<close>

theorem reopen_writes_descriptor_counterexample:
  "initializeDocumentStore 1 ex_store ex_reopened =
     Return ()
       (ex_reopened\<lparr>kvlog := [KGet [JStr ''S''], KGet [JStr ''S''],
                             KPutRecord [JStr ''S''] (ex_descriptor\<lparr>isLocked := True\<rparr>),
                             KGet [JStr ''S''], KGet [JStr ''S''], KGet [JStr ''S''],
                             KPutRecord [JStr ''S''] ex_descriptor],
                    events := [DidInitialize],
                    hasBeenInitialized := True\<rparr>)
   \<and> filter is_write
        [KGet [JStr ''S''], KGet [JStr ''S''],
         KPutRecord [JStr ''S''] (ex_descriptor\<lparr>isLocked := True\<rparr>),
         KGet [JStr ''S''], KGet [JStr ''S''], KGet [JStr ''S''],
         KPutRecord [JStr ''S''] ex_descriptor]
      = [KPutRecord [JStr ''S''] (ex_descriptor\<lparr>isLocked := True\<rparr>),
         KPutRecord [JStr ''S''] ex_descriptor]"
  by code_simp

end
